theory Spec2Isabelle
  imports Main "HOL-Library.Multiset"
begin

section \<open>The MCQ generation pipeline of \<^verbatim>\<open>MCQenerator/src/App.tsx\<close>\<close>

text \<open>
  A shallow embedding of the generation pipeline: \<^verbatim>\<open>shuffleArray\<close>,
  \<^verbatim>\<open>extractEntities\<close>, \<^verbatim>\<open>generateContextualQuestion\<close>,
  \<^verbatim>\<open>generatePlausibleDistractors\<close> and \<^verbatim>\<open>generateMockQuestions\<close>.

  Conventions of the model.
  \<^item> A JavaScript string is a \<open>string\<close>: a list of code units, each of them an
    8-bit \<open>char\<close>. The model therefore covers the texts whose code units are below
    256 (ISO-8859-1); the white space of \<^verbatim>\<open>\s\<close> and \<^verbatim>\<open>trim\<close> and the case
    mapping of \<^verbatim>\<open>toLowerCase\<close> are the ones of that range.
  \<^item> \<^verbatim>\<open>undefined\<close> is \<open>None\<close>: an array read out of range returns it, and a
    template literal or \<^verbatim>\<open>includes\<close> renders it as the text \<^verbatim>\<open>undefined\<close>.
  \<^item> \<^verbatim>\<open>Math.random()\<close> is an explicit source of draws \<open>rnd :: nat \<Rightarrow> draw\<close>
    together with the number \<open>k\<close> of draws consumed so far; every function that draws
    returns the new \<open>k\<close>.
\<close>

subsection \<open>Data model\<close>

text \<open>
  The interfaces of the source, field by field. The fields \<^verbatim>\<open>id\<close>, \<^verbatim>\<open>text\<close> and
  \<^verbatim>\<open>type\<close> are \<open>oid\<close> and \<open>qid\<close>, \<open>otext\<close> and \<open>qtype\<close> here; the optional
  \<^verbatim>\<open>selectedOption\<close> of a question, which the generation never sets, is left out.
\<close>

datatype Difficulty = Easy | Medium | Hard

datatype CognitiveLevel = Remember | Understand | Apply | Analyze

datatype QuestionType = Definition | CauseEffect | Comparison | Sequencing | Scenario

record TextEntities =
  processes :: "string list"
  structures :: "string list"
  concepts :: "string list"
  relationships :: "(string \<times> string) list"

record MCQOption =
  oid :: string
  otext :: string
  isCorrect :: bool

record MCQuestion =
  qid :: string
  question :: string
  options :: "MCQOption list"
  explanation :: "string option"
  cognitiveLevel :: CognitiveLevel
  qtype :: QuestionType
  sourceReference :: string

text \<open>\<^verbatim>\<open>questionPatterns[type].level\<close>; the template lists of the table are never read.\<close>

fun level :: "QuestionType \<Rightarrow> CognitiveLevel" where
  "level Definition = Remember"
| "level CauseEffect = Understand"
| "level Comparison = Analyze"
| "level Sequencing = Understand"
| "level Scenario = Apply"

subsection \<open>The random source\<close>

text \<open>
  A draw of \<^verbatim>\<open>Math.random()\<close> is a number in \<open>[0, 1)\<close>: \<open>Draw a b\<close> stands for
  the fraction \<open>a / (a + b + 1)\<close>, so that every draw is in range by construction and every
  rational of \<open>[0, 1)\<close> is a draw. \<open>randomIndex r n\<close> is
  \<^verbatim>\<open>Math.floor(Math.random() * n)\<close>: it is below \<open>n\<close> when \<open>n\<close> is positive and \<open>0\<close>
  when \<open>n = 0\<close>. (The product is taken exactly; the rounded product of the doubles stays
  in the same range.)
\<close>

datatype draw = Draw nat nat

fun randomIndex :: "draw \<Rightarrow> nat \<Rightarrow> nat" where
  "randomIndex (Draw a b) n = (a * n) div (a + b + 1)"

text \<open>An array read \<^verbatim>\<open>xs[i]\<close>: \<^verbatim>\<open>undefined\<close> out of range.\<close>

definition at :: "'a list \<Rightarrow> nat \<Rightarrow> 'a option" where
  "at xs i = (if i < length xs then Some (xs ! i) else None)"

subsection \<open>\<^verbatim>\<open>shuffleArray\<close>\<close>

text \<open>
  \<^verbatim>\<open>
  const newArray = [...array];
  for (let i = newArray.length - 1; i > 0; i--) {
    const j = Math.floor(Math.random() * (i + 1));
    [newArray[i], newArray[j]] = [newArray[j], newArray[i]];
  }
  return newArray;
  \<close>
  \<open>shuffleLoop\<close> is the loop on the value of \<^verbatim>\<open>newArray\<close>, entered at index \<open>i\<close>;
  \<open>j \<le> i\<close> is always in range, so the swap never extends the array.
\<close>

fun shuffleLoop :: "(nat \<Rightarrow> draw) \<Rightarrow> nat \<Rightarrow> nat \<Rightarrow> 'a list \<Rightarrow> 'a list \<times> nat" where
  "shuffleLoop rnd k 0 newArray = (newArray, k)"
| "shuffleLoop rnd k (Suc i') newArray =
     (let i = Suc i';
          j = randomIndex (rnd k) (i + 1)
      in shuffleLoop rnd (k + 1) i' (newArray[i := newArray ! j, j := newArray ! i]))"

definition shuffleArray :: "(nat \<Rightarrow> draw) \<Rightarrow> nat \<Rightarrow> 'a list \<Rightarrow> 'a list \<times> nat" where
  "shuffleArray rnd k array = (let newArray = array in shuffleLoop rnd k (length newArray - 1) newArray)"

text \<open>
  The same function on a store of arrays, to tell the array it is given from the array it
  returns: \<open>arrs h a\<close> is the content of the array at address \<open>a\<close>, and the addresses
  below \<open>lim h\<close> are the allocated ones. \<^verbatim>\<open>[...array]\<close> allocates the copy at
  the next free address, and every swap writes to that address.
\<close>

record 'a heap =
  arrs :: "nat \<Rightarrow> 'a list"
  lim :: nat

fun shuffleLoop_heap :: "(nat \<Rightarrow> draw) \<Rightarrow> nat \<Rightarrow> nat \<Rightarrow> nat \<Rightarrow> 'a heap \<Rightarrow> 'a heap \<times> nat" where
  "shuffleLoop_heap rnd k 0 newArray h = (h, k)"
| "shuffleLoop_heap rnd k (Suc i') newArray h =
     (let i = Suc i';
          j = randomIndex (rnd k) (i + 1);
          a = arrs h newArray
      in shuffleLoop_heap rnd (k + 1) i' newArray
           (h\<lparr>arrs := (arrs h)(newArray := a[i := a ! j, j := a ! i])\<rparr>))"

definition shuffleArray_heap :: "(nat \<Rightarrow> draw) \<Rightarrow> nat \<Rightarrow> 'a heap \<Rightarrow> nat \<Rightarrow> nat \<times> 'a heap \<times> nat" where
  "shuffleArray_heap rnd k h array =
     (let newArray = lim h;
          h1 = h\<lparr>arrs := (arrs h)(newArray := arrs h array), lim := lim h + 1\<rparr>;
          (h2, k') = shuffleLoop_heap rnd k (length (arrs h1 newArray) - 1) newArray h1
      in (newArray, h2, k'))"

subsection \<open>\<^verbatim>\<open>generatePlausibleDistractors\<close>\<close>

fun difficultyDistractors :: "Difficulty \<Rightarrow> string list" where
  "difficultyDistractors Easy =
     [''The process occurs in reverse'', ''No interaction takes place'', ''The structure is inactive'']"
| "difficultyDistractors Medium =
     [''The relationship is indirect'', ''Multiple steps are skipped'', ''The effect is temporary'']"
| "difficultyDistractors Hard =
     [''The mechanism is substrate-independent'', ''Regulation occurs at a different level'',
      ''The pathway is non-linear'']"

text \<open>
  The \<^verbatim>\<open>while (distractors.length < 3)\<close> loop. The table read
  \<^verbatim>\<open>difficultyDistractors[difficulty][distractors.length]\<close> happens under the loop
  condition, so its index is below 3, the length of every row of the table.
\<close>

function fillDistractors :: "Difficulty \<Rightarrow> string list \<Rightarrow> string list" where
  "fillDistractors difficulty distractors =
     (if length distractors < 3
      then fillDistractors difficulty
             (distractors @ [difficultyDistractors difficulty ! length distractors])
      else distractors)"
  by pat_completeness auto
termination
  by (relation "measure (\<lambda>(d, ds). 3 - length ds)") auto

text \<open>
  The three pushes before the loop; each array read \<^verbatim>\<open>[0]\<close> is guarded by
  \<^verbatim>\<open>length > 0\<close>.
\<close>

definition entityDistractors :: "TextEntities \<Rightarrow> string list" where
  "entityDistractors entities =
     (let distractors = [];
          distractors =
            (if length (relationships entities) > 0
             then (let (term1, term2) = relationships entities ! 0
                   in distractors @ [term2 @ '' is responsible for '' @ term1 @ [CHR 0x27] @ ''s function''])
             else distractors);
          distractors =
            (if length (structures entities) > 0
             then (let structure = structures entities ! 0
                   in distractors @ [structure @ '' is involved in a different process''])
             else distractors);
          distractors =
            (if length (concepts entities) > 0
             then (let concept = concepts entities ! 0
                   in distractors @ [concept @ '' operates independently of other processes''])
             else distractors)
      in distractors)"

definition generatePlausibleDistractors ::
  "string \<Rightarrow> TextEntities \<Rightarrow> Difficulty \<Rightarrow> string list" where
  "generatePlausibleDistractors correctAnswer entities difficulty =
     fillDistractors difficulty (entityDistractors entities)"

subsection \<open>Strings\<close>

text \<open>
  The white space of \<^verbatim>\<open>\s\<close> and of \<^verbatim>\<open>trim\<close> (WhiteSpace and LineTerminator)
  below 256: tab, line feed, vertical tab, form feed, carriage return, space and the
  no-break space.
\<close>

definition isSpace :: "char \<Rightarrow> bool" where
  "isSpace c = (c \<in> set [CHR 0x09, CHR 0x0A, CHR 0x0B, CHR 0x0C, CHR 0x0D, CHR 0x20, CHR 0xA0])"

definition trim :: "string \<Rightarrow> string" where
  "trim s = rev (dropWhile isSpace (rev (dropWhile isSpace s)))"

text \<open>
  \<^verbatim>\<open>toLowerCase\<close>, code unit by code unit: \<open>A\<close>..\<open>Z\<close> and the capital letters
  \<open>0xC0\<close>..\<open>0xDE\<close> of ISO-8859-1 (all but the multiplication sign \<open>0xD7\<close>) move up by 32.
\<close>

definition lowerChar :: "char \<Rightarrow> char" where
  "lowerChar c =
     (let n = (of_char c :: nat)
      in if (65 \<le> n \<and> n \<le> 90) \<or> (192 \<le> n \<and> n \<le> 222 \<and> n \<noteq> 215) then char_of (n + 32) else c)"

definition toLowerCase :: "string \<Rightarrow> string" where
  "toLowerCase s = map lowerChar s"

text \<open>
  The Canonicalize step of a regular expression with the \<^verbatim>\<open>i\<close> flag and without the
  \<^verbatim>\<open>u\<close> flag: a code unit is compared through its upper case, and a code unit from 128
  on is never mapped below 128. Every character the patterns of this program name is
  below 128, so only the mapping of \<open>a\<close>..\<open>z\<close> to \<open>A\<close>..\<open>Z\<close> can make two different code
  units equal; the model maps those and leaves the rest.
\<close>

definition canonicalize :: "char \<Rightarrow> char" where
  "canonicalize c =
     (let n = (of_char c :: nat) in if 97 \<le> n \<and> n \<le> 122 then char_of (n - 32) else c)"

text \<open>\<^verbatim>\<open>s.startsWith(p)\<close> and \<^verbatim>\<open>s.includes(p)\<close>.\<close>

fun startsWith :: "string \<Rightarrow> string \<Rightarrow> bool" where
  "startsWith s [] = True"
| "startsWith [] (p # ps) = False"
| "startsWith (c # cs) (p # ps) = (c = p \<and> startsWith cs ps)"

fun includesStr :: "string \<Rightarrow> string \<Rightarrow> bool" where
  "includesStr [] p = (p = [])"
| "includesStr (c # cs) p = (startsWith (c # cs) p \<or> includesStr cs p)"

text \<open>
  The text of a value inside a template literal or as the argument of
  \<^verbatim>\<open>includes\<close>: \<^verbatim>\<open>undefined\<close> becomes the nine letters.
\<close>

definition toStr :: "string option \<Rightarrow> string" where
  "toStr v = (case v of None \<Rightarrow> ''undefined'' | Some s \<Rightarrow> s)"

text \<open>The decimal text of a number in a template literal.\<close>

function showNat :: "nat \<Rightarrow> string" where
  "showNat n = (if n < 10 then [''0123456789'' ! n] else showNat (n div 10) @ [''0123456789'' ! (n mod 10)])"
  by pat_completeness auto
termination
  by (relation "measure id") auto

subsection \<open>Regular expressions\<close>

text \<open>
  A pattern is a matcher: applied to the text that starts at the current position, it
  returns the lengths of all its matches there, in the order in which the backtracking
  matcher of JavaScript tries them; the head of the list is the match that is returned.
  The patterns of this program need literals (with or without the \<^verbatim>\<open>i\<close> flag),
  alternatives, sequences and a greedy \<^verbatim>\<open>+\<close> on a character class.
\<close>

type_synonym matcher = "string \<Rightarrow> nat list"

definition charEq :: "bool \<Rightarrow> char \<Rightarrow> char \<Rightarrow> bool" where
  "charEq ignoreCase p c = (if ignoreCase then canonicalize p = canonicalize c else p = c)"

fun litMatches :: "bool \<Rightarrow> string \<Rightarrow> string \<Rightarrow> bool" where
  "litMatches ignoreCase [] s = True"
| "litMatches ignoreCase (p # ps) [] = False"
| "litMatches ignoreCase (p # ps) (c # cs) = (charEq ignoreCase p c \<and> litMatches ignoreCase ps cs)"

definition reLit :: "bool \<Rightarrow> string \<Rightarrow> matcher" where
  "reLit ignoreCase p s = (if litMatches ignoreCase p s then [length p] else [])"

definition reAlt :: "matcher list \<Rightarrow> matcher" where
  "reAlt ms s = concat (map (\<lambda>m. m s) ms)"

definition reSeq :: "matcher \<Rightarrow> matcher \<Rightarrow> matcher" where
  "reSeq m1 m2 s = concat (map (\<lambda>a. map (\<lambda>b. a + b) (m2 (drop a s))) (m1 s))"

text \<open>Greedy \<^verbatim>\<open>[class]+\<close>: the longest run first, then one character less, down to one.\<close>

definition rePlus :: "(char \<Rightarrow> bool) \<Rightarrow> matcher" where
  "rePlus cls s = rev [1 ..< Suc (length (takeWhile cls s))]"

text \<open>
  A pattern that ends with its only capturing group, \<^verbatim>\<open>pre([class]+)\<close>: each match is
  the pair of the length of the part before the group and the length of the group.
\<close>

definition reGroup :: "matcher \<Rightarrow> (char \<Rightarrow> bool) \<Rightarrow> string \<Rightarrow> (nat \<times> nat) list" where
  "reGroup pre cls s = concat (map (\<lambda>a. map (\<lambda>b. (a, b)) (rePlus cls (drop a s))) (pre s))"

text \<open>
  \<^verbatim>\<open>RegExp.prototype.exec\<close> from index \<open>i\<close>: the first index from \<open>i\<close> on, up to the
  length of the text, at which the pattern matches, with the match found there.
\<close>

function execFrom :: "(string \<Rightarrow> 'a list) \<Rightarrow> string \<Rightarrow> nat \<Rightarrow> (nat \<times> 'a) option" where
  "execFrom m s i =
     (if i > length s then None
      else (case m (drop i s) of
              [] \<Rightarrow> execFrom m s (i + 1)
            | x # _ \<Rightarrow> Some (i, x)))"
  by pat_completeness auto
termination
  by (relation "measure (\<lambda>(m, s, i). Suc (length s) - i)") auto

text \<open>\<^verbatim>\<open>regexp.test(s)\<close> for a pattern without the \<^verbatim>\<open>g\<close> flag.\<close>

definition reTest :: "matcher \<Rightarrow> string \<Rightarrow> bool" where
  "reTest m s = (execFrom m s 0 \<noteq> None)"

text \<open>
  \<^verbatim>\<open>s.match(regexp)[1]\<close> for a pattern without the \<^verbatim>\<open>g\<close> flag that ends with its
  group: the text of the group in the first match, \<open>None\<close> when there is no match.
\<close>

definition matchGroup :: "(string \<Rightarrow> (nat \<times> nat) list) \<Rightarrow> string \<Rightarrow> string option" where
  "matchGroup m s =
     (case execFrom m s 0 of
        None \<Rightarrow> None
      | Some (i, (a, b)) \<Rightarrow> Some (take b (drop (i + a) s)))"

text \<open>
  \<^verbatim>\<open>Array.from(s.matchAll(regexp), m => m[1])\<close> for a pattern with the \<^verbatim>\<open>g\<close> flag
  that ends with its group: the groups of the successive matches, each search starting
  where the match before ended (one further after an empty match).
\<close>

function matchAllFrom :: "(string \<Rightarrow> (nat \<times> nat) list) \<Rightarrow> string \<Rightarrow> nat \<Rightarrow> string list" where
  "matchAllFrom m s i =
     (if i > length s then []
      else (case m (drop i s) of
              [] \<Rightarrow> matchAllFrom m s (i + 1)
            | (a, b) # _ \<Rightarrow>
                take b (drop (i + a) s) # matchAllFrom m s (i + max 1 (a + b))))"
  by pat_completeness auto
termination
  by (relation "measure (\<lambda>(m, s, i). Suc (length s) - i)") auto

definition matchAll :: "(string \<Rightarrow> (nat \<times> nat) list) \<Rightarrow> string \<Rightarrow> string list" where
  "matchAll m s = matchAllFrom m s 0"

text \<open>
  \<^verbatim>\<open>s.split(regexp)\<close> for a pattern without capturing groups, as
  \<^verbatim>\<open>RegExp.prototype[Symbol.split]\<close> runs it: \<open>p\<close> is the start of the current piece,
  \<open>q\<close> the index at which a match is tried; a match that ends at \<open>p\<close> is skipped; the
  empty text gives one empty piece unless the pattern matches it.
\<close>

function splitFrom :: "matcher \<Rightarrow> string \<Rightarrow> nat \<Rightarrow> nat \<Rightarrow> string list" where
  "splitFrom m s p q =
     (if q < length s
      then (case m (drop q s) of
              [] \<Rightarrow> splitFrom m s p (q + 1)
            | n # _ \<Rightarrow>
                (let e = min (q + n) (length s)
                 in if e = p then splitFrom m s p (q + 1)
                    else take (q - p) (drop p s) # splitFrom m s e e))
      else [drop p s])"
  by pat_completeness auto
termination
  by (relation "measure (\<lambda>(m, s, p, q). 2 * (length s - q) + (if p = q then 0 else 1))")
     (auto split: if_splits)

definition splitRe :: "matcher \<Rightarrow> string \<Rightarrow> string list" where
  "splitRe m s = (if s = [] then (if m [] = [] then [[]] else []) else splitFrom m s 0 0)"

subsection \<open>The patterns of the program\<close>

text \<open>\<^verbatim>\<open>/[.!?]+/\<close>, the sentence separator.\<close>

definition sentenceEnd :: matcher where
  "sentenceEnd = rePlus (\<lambda>c. c \<in> set ''.!?'')"

text \<open>\<^verbatim>\<open>/\n\n/\<close>, the paragraph separator.\<close>

definition blankLine :: matcher where
  "blankLine = reLit False [CHR 0x0A, CHR 0x0A]"

text \<open>
  The class \<^verbatim>\<open>[a-z\s]\<close> under the \<^verbatim>\<open>i\<close> flag: a code unit whose canonical form is
  the one of a letter \<open>a\<close>..\<open>z\<close>, that is one of \<open>A\<close>..\<open>Z\<close>, or a white space.
\<close>

definition letterOrSpace :: "char \<Rightarrow> bool" where
  "letterOrSpace c =
     ((let n = (of_char (canonicalize c) :: nat) in 65 \<le> n \<and> n \<le> 90) \<or> isSpace c)"

text \<open>
  \<^verbatim>\<open>/(?:process of |steps in |stages of |cycle of |mechanism of )([a-z\s]+)/gi\<close> and its
  two siblings.
\<close>

definition processPatterns :: "string \<Rightarrow> (nat \<times> nat) list" where
  "processPatterns =
     reGroup (reAlt (map (reLit True)
        [''process of '', ''steps in '', ''stages of '', ''cycle of '', ''mechanism of '']))
       letterOrSpace"

definition structurePatterns :: "string \<Rightarrow> (nat \<times> nat) list" where
  "structurePatterns =
     reGroup (reAlt (map (reLit True)
        [''structure of '', ''composed of '', ''made up of '', ''contains '', ''within '']))
       letterOrSpace"

definition conceptPatterns :: "string \<Rightarrow> (nat \<times> nat) list" where
  "conceptPatterns =
     reGroup (reAlt (map (reLit True)
        [''concept of '', ''principle of '', ''theory of '', ''law of '', ''definition of '']))
       letterOrSpace"

text \<open>\<^verbatim>\<open>/(?:compared to|differs from|versus|vs\.|unlike)\s+([^,\.]+)/i\<close>\<close>

definition comparisonPattern :: "string \<Rightarrow> (nat \<times> nat) list" where
  "comparisonPattern =
     reGroup (reSeq (reAlt (map (reLit True)
                [''compared to'', ''differs from'', ''versus'', ''vs.'', ''unlike'']))
              (rePlus isSpace))
       (\<lambda>c. c \<notin> set '',.'')"

text \<open>\<^verbatim>\<open>/\s+(?:and|or)\s+/\<close>, without the \<^verbatim>\<open>i\<close> flag.\<close>

definition andOr :: matcher where
  "andOr = reSeq (rePlus isSpace) (reSeq (reAlt (map (reLit False) [''and'', ''or''])) (rePlus isSpace))"

text \<open>
  \<^verbatim>\<open>/(?:causes|results in|leads to|produces|triggers)/i\<close>, and the same alternatives
  without the group in the \<^verbatim>\<open>split\<close> of the cause-effect branch.
\<close>

definition causalVerbs :: matcher where
  "causalVerbs =
     reAlt (map (reLit True) [''causes'', ''results in'', ''leads to'', ''produces'', ''triggers''])"

subsection \<open>\<^verbatim>\<open>extractEntities\<close>\<close>

text \<open>\<^verbatim>\<open>[...new Set(xs)]\<close>: the elements in the order of their first occurrence.\<close>

definition newSet :: "'a list \<Rightarrow> 'a list" where
  "newSet xs = foldl (\<lambda>seen x. if x \<in> set seen then seen else seen @ [x]) [] xs"

text \<open>
  The body of the \<^verbatim>\<open>sentences.forEach\<close> callback: the relationships after the
  sentence has been looked at.
\<close>

definition addRelationship :: "(string \<times> string) list \<Rightarrow> string \<Rightarrow> (string \<times> string) list" where
  "addRelationship rels sentence =
     (case matchGroup comparisonPattern sentence of
        None \<Rightarrow> rels
      | Some group1 \<Rightarrow>
          (let terms = splitRe andOr group1
           in if length terms = 2 then rels @ [(trim (terms ! 0), trim (terms ! 1))] else rels))"

text \<open>
  The constants \<^verbatim>\<open>words\<close> and \<^verbatim>\<open>stopWords\<close> of the source are computed and never
  read; they are left out.
\<close>

definition extractEntities :: "string \<Rightarrow> TextEntities" where
  "extractEntities text =
     (let sentences = filter (\<lambda>s. s \<noteq> []) (map trim (splitRe sentenceEnd text));
          processes = map trim (matchAll processPatterns text);
          structures = map trim (matchAll structurePatterns text);
          concepts = map trim (matchAll conceptPatterns text);
          relationships = foldl addRelationship [] sentences
      in \<lparr> processes = newSet processes,
           structures = newSet structures,
           concepts = newSet concepts,
           relationships = relationships \<rparr>)"

subsection \<open>\<^verbatim>\<open>generateContextualQuestion\<close>\<close>

record ContextualQuestion =
  cq_question :: string
  cq_correctAnswer :: string
  cq_sourceReference :: string

text \<open>
  \<^verbatim>\<open>text.split(/\n\n/)[paragraphNumber - 1] || text\<close>: the whole text when the index is
  out of range or the paragraph is the empty string.
\<close>

definition selectParagraph :: "string \<Rightarrow> nat \<Rightarrow> string" where
  "selectParagraph text paragraphNumber =
     (case (if paragraphNumber = 0 then None else at (splitRe blankLine text) (paragraphNumber - 1)) of
        None \<Rightarrow> text
      | Some p \<Rightarrow> if p = [] then text else p)"

text \<open>
  \<^verbatim>\<open>paragraph.split(/[.!?]+/).find(pred) || ''\<close>
\<close>

definition findSentence :: "(string \<Rightarrow> bool) \<Rightarrow> string \<Rightarrow> string" where
  "findSentence pred paragraph =
     (case find pred (splitRe sentenceEnd paragraph) of None \<Rightarrow> [] | Some s \<Rightarrow> s)"

text \<open>
  The type of the parameter \<^verbatim>\<open>type\<close> has exactly the five cases below, so the
  \<^verbatim>\<open>default\<close> branch of the \<^verbatim>\<open>switch\<close> (the result with three empty strings) is
  never taken. The branches that pick an entity read the array at
  \<^verbatim>\<open>Math.floor(Math.random() * length)\<close> without looking at the length first; on an
  empty array the index is 0 and the read gives \<^verbatim>\<open>undefined\<close>.

  In the cause-effect branch \<^verbatim>\<open>causeSentence.split(...)[0]\<close> is the head of the list
  of pieces; the list is never empty (\<open>splitRe_causalVerbs_nonempty\<close> below).
\<close>

fun generateContextualQuestion ::
  "(nat \<Rightarrow> draw) \<Rightarrow> nat \<Rightarrow> QuestionType \<Rightarrow> TextEntities \<Rightarrow> string \<Rightarrow> nat
     \<Rightarrow> ContextualQuestion \<times> nat" where
  "generateContextualQuestion rnd k Definition entities text paragraphNumber =
     (let paragraph = selectParagraph text paragraphNumber;
          concept = at (concepts entities) (randomIndex (rnd k) (length (concepts entities)));
          conceptSentence =
            findSentence (\<lambda>s. includesStr (toLowerCase s) (toStr concept)) paragraph
      in (\<lparr> cq_question = ''What is '' @ toStr concept @ ''?'',
            cq_correctAnswer = trim conceptSentence,
            cq_sourceReference = ''Paragraph '' @ showNat paragraphNumber \<rparr>, k + 1))"
| "generateContextualQuestion rnd k Comparison entities text paragraphNumber =
     (let paragraph = selectParagraph text paragraphNumber;
          (term1, term2) =
            (case at (relationships entities)
                    (randomIndex (rnd k) (length (relationships entities))) of
               Some (t1, t2) \<Rightarrow> (Some t1, Some t2)
             | None \<Rightarrow> (None, None));
          comparisonSentence =
            findSentence (\<lambda>s. includesStr (toLowerCase s) (toStr term1)
                              \<and> includesStr (toLowerCase s) (toStr term2)) paragraph
      in (\<lparr> cq_question = ''How does '' @ toStr term1 @ '' differ from '' @ toStr term2 @ ''?'',
            cq_correctAnswer = trim comparisonSentence,
            cq_sourceReference = ''Paragraph '' @ showNat paragraphNumber \<rparr>, k + 1))"
| "generateContextualQuestion rnd k Sequencing entities text paragraphNumber =
     (let paragraph = selectParagraph text paragraphNumber;
          process = at (processes entities) (randomIndex (rnd k) (length (processes entities)));
          processSentence =
            findSentence (\<lambda>s. includesStr (toLowerCase s) (toStr process)) paragraph
      in (\<lparr> cq_question = ''What is the correct sequence in '' @ toStr process @ ''?'',
            cq_correctAnswer = trim processSentence,
            cq_sourceReference = ''Paragraph '' @ showNat paragraphNumber \<rparr>, k + 1))"
| "generateContextualQuestion rnd k CauseEffect entities text paragraphNumber =
     (let paragraph = selectParagraph text paragraphNumber;
          causeSentence = findSentence (reTest causalVerbs) paragraph
      in (\<lparr> cq_question =
              ''What is the effect of '' @ trim (hd (splitRe causalVerbs causeSentence)) @ ''?'',
            cq_correctAnswer = trim causeSentence,
            cq_sourceReference = ''Paragraph '' @ showNat paragraphNumber \<rparr>, k))"
| "generateContextualQuestion rnd k Scenario entities text paragraphNumber =
     (let paragraph = selectParagraph text paragraphNumber;
          concept = at (concepts entities) (randomIndex (rnd k) (length (concepts entities)));
          conceptSentence =
            findSentence (\<lambda>s. includesStr (toLowerCase s) (toStr concept)) paragraph
      in (\<lparr> cq_question = ''Which scenario best demonstrates '' @ toStr concept @ ''?'',
            cq_correctAnswer = trim conceptSentence,
            cq_sourceReference = ''Paragraph '' @ showNat paragraphNumber \<rparr>, k + 1))"

subsection \<open>\<^verbatim>\<open>generateMockQuestions\<close>\<close>

definition questionTypes :: "QuestionType list" where
  "questionTypes = [Definition, CauseEffect, Comparison, Sequencing, Scenario]"

text \<open>
  \<^verbatim>\<open>questionTypes[i % questionTypes.length]\<close> and
  \<^verbatim>\<open>Math.floor(i / questionTypes.length) + 1\<close>, the request of slot \<open>i\<close>.
\<close>

definition questionTypeAt :: "nat \<Rightarrow> QuestionType" where
  "questionTypeAt i = questionTypes ! (i mod length questionTypes)"

definition paragraphNumberAt :: "nat \<Rightarrow> nat" where
  "paragraphNumberAt i = i div length questionTypes + 1"

text \<open>
  The four options of slot \<open>i\<close> before the shuffle: the correct answer with the suffix
  \<open>a\<close>, then the distractors with \<^verbatim>\<open>String.fromCharCode(98 + j)\<close>, where
  \<open>j\<close> is 0, 1 or 2 since there are always three distractors.
\<close>

definition buildOptions :: "nat \<Rightarrow> string \<Rightarrow> string list \<Rightarrow> MCQOption list" where
  "buildOptions i correctAnswer distractors =
     \<lparr> oid = ''q'' @ showNat (i + 1) @ ''_a'', otext = correctAnswer, isCorrect = True \<rparr>
     # map (\<lambda>(j, d). \<lparr> oid = ''q'' @ showNat (i + 1) @ ''_'' @ [char_of (98 + j)],
                        otext = d, isCorrect = False \<rparr>)
         (enumerate 0 distractors)"

text \<open>
  The object that \<^verbatim>\<open>questions.push\<close> receives in slot \<open>i\<close>.
  \<^verbatim>\<open>settings.includeExplanations\<close>, which the source reads from the component state, is
  the parameter \<open>includeExplanations\<close>; an explanation that is \<^verbatim>\<open>undefined\<close> is
  \<open>None\<close>.
\<close>

definition newQuestion ::
  "nat \<Rightarrow> QuestionType \<Rightarrow> ContextualQuestion \<Rightarrow> MCQOption list \<Rightarrow> bool \<Rightarrow> MCQuestion" where
  "newQuestion i questionType cq opts includeExplanations =
     \<lparr> qid = ''q'' @ showNat (i + 1),
       question = cq_question cq,
       options = opts,
       explanation =
         (if includeExplanations
          then Some (''As stated in '' @ cq_sourceReference cq @ '': ''
                     @ [CHR 0x22] @ cq_correctAnswer cq @ [CHR 0x22])
          else None),
       cognitiveLevel = level questionType,
       qtype = questionType,
       sourceReference = cq_sourceReference cq \<rparr>"

text \<open>
  The \<^verbatim>\<open>for\<close> loop, entered at index \<open>i\<close> with \<open>k\<close> draws consumed and the questions
  pushed so far; \<^verbatim>\<open>count\<close> is the natural number \<open>count'\<close> (the settings offer 5, 10,
  15 and 20).
\<close>

function genLoop ::
  "(nat \<Rightarrow> draw) \<Rightarrow> string \<Rightarrow> nat \<Rightarrow> Difficulty \<Rightarrow> bool \<Rightarrow> TextEntities
     \<Rightarrow> nat \<Rightarrow> nat \<Rightarrow> MCQuestion list \<Rightarrow> MCQuestion list \<times> nat" where
  "genLoop rnd text count' difficulty includeExplanations entities i k questions =
     (if i < count'
      then (let questionType = questionTypeAt i;
                paragraphNumber = paragraphNumberAt i;
                (cq, k1) = generateContextualQuestion rnd k questionType entities text paragraphNumber
            in if cq_question cq = [] \<or> cq_correctAnswer cq = []
               then genLoop rnd text count' difficulty includeExplanations entities (i + 1) k1 questions
               else (let distractors =
                           generatePlausibleDistractors (cq_correctAnswer cq) entities difficulty;
                         (opts, k2) =
                           shuffleArray rnd k1 (buildOptions i (cq_correctAnswer cq) distractors)
                     in genLoop rnd text count' difficulty includeExplanations entities (i + 1) k2
                          (questions @ [newQuestion i questionType cq opts includeExplanations])))
      else (questions, k))"
  by pat_completeness auto
termination
  by (relation "measure (\<lambda>(rnd, text, count', difficulty, incl, entities, i, k, qs). count' - i)") auto

definition generateMockQuestions ::
  "(nat \<Rightarrow> draw) \<Rightarrow> nat \<Rightarrow> string \<Rightarrow> nat \<Rightarrow> Difficulty \<Rightarrow> bool \<Rightarrow> MCQuestion list \<times> nat" where
  "generateMockQuestions rnd k text count' difficulty includeExplanations =
     (let entities = extractEntities text
      in genLoop rnd text count' difficulty includeExplanations entities 0 k [])"

section \<open>Properties\<close>

declare fillDistractors.simps [simp del] showNat.simps [simp del] execFrom.simps [simp del]
  matchAllFrom.simps [simp del] splitFrom.simps [simp del] genLoop.simps [simp del]

subsection \<open>The random index and the shuffle\<close>

lemma randomIndex_less: "0 < n \<Longrightarrow> randomIndex r n < n"
proof (cases r)
  case (Draw a b)
  assume "0 < n"
  then have "a * n < n * (a + b + 1)" by (simp add: algebra_simps)
  then have "(a * n) div (a + b + 1) < n" by (rule less_mult_imp_div_less)
  with Draw show ?thesis by simp
qed

lemma randomIndex_zero: "randomIndex r 0 = 0"
  by (cases r) simp

lemma shuffleLoop_mset: "i < length xs \<Longrightarrow> mset (fst (shuffleLoop rnd k i xs)) = mset xs"
proof (induction i arbitrary: k xs)
  case 0
  then show ?case by simp
next
  case (Suc i)
  let ?j = "randomIndex (rnd k) (Suc i + 1)"
  have j: "?j < length xs" using randomIndex_less [of "Suc i + 1" "rnd k"] Suc.prems by simp
  have sw: "mset (xs[Suc i := xs ! ?j, ?j := xs ! Suc i]) = mset xs"
    using Suc.prems j by (simp add: mset_swap)
  have "i < length (xs[Suc i := xs ! ?j, ?j := xs ! Suc i])" using Suc.prems by simp
  from Suc.IH [OF this] sw show ?case by (simp add: Let_def)
qed

lemma shuffleLoop_draws: "snd (shuffleLoop rnd k i xs) = k + i"
  by (induction i arbitrary: k xs) (simp_all add: Let_def)

lemma shuffleArray_mset: "mset (fst (shuffleArray rnd k xs)) = mset xs"
proof (cases xs)
  case Nil
  then show ?thesis by (simp add: shuffleArray_def)
next
  case (Cons x ys)
  then have "length xs - 1 < length xs" by simp
  then show ?thesis by (simp add: shuffleArray_def shuffleLoop_mset)
qed

lemma shuffleArray_length: "length (fst (shuffleArray rnd k xs)) = length xs"
  using shuffleArray_mset [of rnd k xs] by (metis size_mset)

lemma shuffleLoop_heap_value:
  "arrs (fst (shuffleLoop_heap rnd k i r h)) = (arrs h)(r := fst (shuffleLoop rnd k i (arrs h r)))
   \<and> lim (fst (shuffleLoop_heap rnd k i r h)) = lim h
   \<and> snd (shuffleLoop_heap rnd k i r h) = snd (shuffleLoop rnd k i (arrs h r))"
proof (induction i arbitrary: k h)
  case 0
  then show ?case by simp
next
  case (Suc i)
  show ?case by (simp add: Let_def Suc.IH fun_eq_iff)
qed

lemma fillDistractors_length: "length ds \<le> 3 \<Longrightarrow> length (fillDistractors d ds) = 3"
proof (induction d ds rule: fillDistractors.induct)
  case (1 difficulty distractors)
  show ?case
  proof (cases "length distractors < 3")
    case True
    then have "length (distractors @ [difficultyDistractors difficulty ! length distractors]) \<le> 3" by simp
    from "1.IH" [OF True this] True show ?thesis by (simp add: fillDistractors.simps [of difficulty distractors])
  next
    case False
    with "1.prems" show ?thesis by (simp add: fillDistractors.simps [of difficulty distractors])
  qed
qed

lemma entityDistractors_length: "length (entityDistractors e) \<le> 3"
  by (simp add: entityDistractors_def Let_def split: prod.splits)

lemma generatePlausibleDistractors_length: "length (generatePlausibleDistractors ca e d) = 3"
  by (simp add: generatePlausibleDistractors_def fillDistractors_length entityDistractors_length)

lemma difficultyDistractors_length: "length (difficultyDistractors d) = 3"
  by (cases d) simp_all

lemma fillDistractors_empty: "fillDistractors d [] = difficultyDistractors d"
  by (cases d) (simp_all add: fillDistractors.simps)

lemma generatePlausibleDistractors_empty:
  "generatePlausibleDistractors ca \<lparr>processes = [], structures = [], concepts = [], relationships = []\<rparr> d
     = difficultyDistractors d"
  by (simp add: generatePlausibleDistractors_def entityDistractors_def fillDistractors_empty)


subsection \<open>The distractor generator\<close>

text \<open>
  Claim C2. For every correct answer, every entity set and every difficulty,
  \<^verbatim>\<open>generatePlausibleDistractors\<close> returns a list of exactly three strings; for the
  entity set whose four collections are empty the three strings are the row of the
  difficulty table.
\<close>

theorem generatePlausibleDistractors_three:
  "length (generatePlausibleDistractors correctAnswer entities difficulty) = 3
   \<and> generatePlausibleDistractors correctAnswer
        \<lparr>processes = [], structures = [], concepts = [], relationships = []\<rparr> difficulty
      = difficultyDistractors difficulty"
  using generatePlausibleDistractors_length generatePlausibleDistractors_empty by blast

lemma entityDistractors_take1:
  "entityDistractors e =
     (case take 1 (relationships e) of [] \<Rightarrow> []
      | (term1, term2) # _ \<Rightarrow> [term2 @ '' is responsible for '' @ term1 @ [CHR 0x27] @ ''s function''])
     @ (case take 1 (structures e) of [] \<Rightarrow> []
        | structure # _ \<Rightarrow> [structure @ '' is involved in a different process''])
     @ (case take 1 (concepts e) of [] \<Rightarrow> []
        | concept # _ \<Rightarrow> [concept @ '' operates independently of other processes''])"
  by (cases "relationships e"; cases "structures e"; cases "concepts e")
     (simp_all add: entityDistractors_def split: prod.splits)

lemma entityDistractors_firsts:
  assumes "take 1 (relationships e1) = take 1 (relationships e2)"
    and "take 1 (structures e1) = take 1 (structures e2)"
    and "take 1 (concepts e1) = take 1 (concepts e2)"
  shows "entityDistractors e1 = entityDistractors e2"
  by (simp only: entityDistractors_take1 assms)

text \<open>
  Claim C10. The result of \<^verbatim>\<open>generatePlausibleDistractors\<close> does not depend on its
  argument \<^verbatim>\<open>correctAnswer\<close>: two calls that differ only in it return the same list,
  and so do two calls whose entity sets agree on the first relationship pair, the first
  structure and the first concept.
\<close>

theorem distractors_ignore_correctAnswer:
  "generatePlausibleDistractors ca1 entities difficulty
     = generatePlausibleDistractors ca2 entities difficulty
   \<and> (take 1 (relationships e1) = take 1 (relationships e2)
        \<and> take 1 (structures e1) = take 1 (structures e2)
        \<and> take 1 (concepts e1) = take 1 (concepts e2)
      \<longrightarrow> generatePlausibleDistractors ca1 e1 difficulty
            = generatePlausibleDistractors ca2 e2 difficulty)"
proof (intro conjI impI)
  show "generatePlausibleDistractors ca1 entities difficulty
     = generatePlausibleDistractors ca2 entities difficulty"
    by (simp only: generatePlausibleDistractors_def)
next
  assume "take 1 (relationships e1) = take 1 (relationships e2)
        \<and> take 1 (structures e1) = take 1 (structures e2)
        \<and> take 1 (concepts e1) = take 1 (concepts e2)"
  then have "entityDistractors e1 = entityDistractors e2"
    by (intro entityDistractors_firsts) simp_all
  then show "generatePlausibleDistractors ca1 e1 difficulty
            = generatePlausibleDistractors ca2 e2 difficulty"
    by (simp only: generatePlausibleDistractors_def)
qed

theorem distractors_ignore_correctAnswer_witness:
  "take 1 (relationships \<lparr>processes = [], structures = [''cell''], concepts = [''osmosis'', ''law''], relationships = []\<rparr>)
     = take 1 (relationships \<lparr>processes = [''x''], structures = [''cell'', ''wall''], concepts = [''osmosis''], relationships = []\<rparr>)
   \<and> generatePlausibleDistractors ''one''
        \<lparr>processes = [], structures = [''cell''], concepts = [''osmosis'', ''law''], relationships = []\<rparr> Hard
     = generatePlausibleDistractors ''two''
        \<lparr>processes = [''x''], structures = [''cell'', ''wall''], concepts = [''osmosis''], relationships = []\<rparr> Hard
   \<and> generatePlausibleDistractors ''two''
        \<lparr>processes = [''x''], structures = [''cell'', ''wall''], concepts = [''osmosis''], relationships = []\<rparr> Hard
     = [''cell is involved in a different process'',
        ''osmosis operates independently of other processes'',
        ''The pathway is non-linear'']"
proof -
  let ?e1 = "\<lparr>processes = [], structures = [''cell''], concepts = [''osmosis'', ''law''], relationships = []\<rparr>"
  let ?e2 = "\<lparr>processes = [''x''], structures = [''cell'', ''wall''], concepts = [''osmosis''], relationships = []\<rparr>"
  have h: "take 1 (relationships ?e1) = take 1 (relationships ?e2)
        \<and> take 1 (structures ?e1) = take 1 (structures ?e2)
        \<and> take 1 (concepts ?e1) = take 1 (concepts ?e2)" by simp
  have eq: "generatePlausibleDistractors ''one'' ?e1 Hard = generatePlausibleDistractors ''two'' ?e2 Hard"
    using distractors_ignore_correctAnswer [of "''one''" ?e1 Hard "''two''" ?e1 ?e2] h by blast
  have v: "generatePlausibleDistractors ''two'' ?e2 Hard
     = [''cell is involved in a different process'',
        ''osmosis operates independently of other processes'',
        ''The pathway is non-linear'']"
    by (simp add: generatePlausibleDistractors_def entityDistractors_def fillDistractors.simps)
  from h eq v show ?thesis by blast
qed

subsection \<open>The shuffler\<close>

text \<open>
  Claim C5. \<^verbatim>\<open>shuffleArray\<close> returns a permutation of the array it is given (the same
  length, the same multiset of elements) and never writes to that array: it works on a
  copy at a fresh address, and every array allocated before the call has its content
  unchanged after it. The content of the returned array is the value of the function
  \<open>shuffleArray\<close> on lists that the rest of the development uses.
\<close>

theorem shuffleArray_permutation_copy:
  assumes "array < lim h" and "shuffleArray_heap rnd k h array = (r, h', k')"
  shows "mset (arrs h' r) = mset (arrs h array)
       \<and> length (arrs h' r) = length (arrs h array)
       \<and> (\<forall>a < lim h. arrs h' a = arrs h a)
       \<and> r = lim h \<and> lim h' = lim h + 1
       \<and> arrs h' r = fst (shuffleArray rnd k (arrs h array))"
proof -
  let ?h1 = "h\<lparr>arrs := (arrs h)(lim h := arrs h array), lim := lim h + 1\<rparr>"
  let ?n = "length (arrs h array) - 1"
  from assms(2) have r: "r = lim h" and h': "h' = fst (shuffleLoop_heap rnd k ?n (lim h) ?h1)"
    by (auto simp: shuffleArray_heap_def Let_def split: prod.splits)
  have a: "arrs h' = (arrs h)(lim h := fst (shuffleLoop rnd k ?n (arrs h array)))"
    unfolding h' by (simp add: shuffleLoop_heap_value)
  have l: "lim h' = lim h + 1"
    unfolding h' by (simp add: shuffleLoop_heap_value)
  have v: "arrs h' r = fst (shuffleArray rnd k (arrs h array))"
    by (simp add: r a shuffleArray_def Let_def)
  have "\<forall>b < lim h. arrs h' b = arrs h b" by (simp add: a)
  with v r l show ?thesis by (simp add: shuffleArray_mset shuffleArray_length)
qed

theorem shuffleArray_permutation_copy_witness:
  "(case shuffleArray_heap (\<lambda>_. Draw 0 0) 0 \<lparr>arrs = (\<lambda>_. [])(0 := [1, 2, 3 :: nat]), lim = 1\<rparr> 0 of
      (r, h', k') \<Rightarrow>
        (0 :: nat) < lim \<lparr>arrs = (\<lambda>_. [])(0 := [1, 2, 3 :: nat]), lim = 1\<rparr>
        \<and> mset (arrs h' r) = mset [1, 2, 3]
        \<and> arrs h' 0 = [1, 2, 3]
        \<and> r = 1
        \<and> arrs h' r = [2, 3, 1])"
proof -
  let ?h = "\<lparr>arrs = (\<lambda>_. [])(0 := [1, 2, 3 :: nat]), lim = 1\<rparr>"
  obtain r h' k' where e: "shuffleArray_heap (\<lambda>_. Draw 0 0) 0 ?h 0 = (r, h', k')"
    using prod_cases3 by blast
  have lt: "0 < lim ?h" by simp
  have v: "fst (shuffleArray (\<lambda>_. Draw 0 0) 0 [1, 2, 3 :: nat]) = [2, 3, 1]"
    by (simp add: shuffleArray_def Let_def numeral_2_eq_2)
  have "mset (arrs h' r) = mset [1, 2, 3] \<and> arrs h' 0 = [1, 2, 3] \<and> r = 1 \<and> arrs h' r = [2, 3, 1]"
    using shuffleArray_permutation_copy [OF lt e] v by clarsimp
  then show ?thesis unfolding e by clarsimp
qed

subsection \<open>The orchestrator\<close>

lemma genLoop_done:
  "\<not> i < count' \<Longrightarrow> genLoop rnd text count' d incl ents i k qs = (qs, k)"
  by (subst genLoop.simps) simp

lemma genLoop_skip:
  assumes "i < count'"
    and "generateContextualQuestion rnd k (questionTypeAt i) ents text (paragraphNumberAt i) = (cq, k1)"
    and "cq_question cq = [] \<or> cq_correctAnswer cq = []"
  shows "genLoop rnd text count' d incl ents i k qs = genLoop rnd text count' d incl ents (i + 1) k1 qs"
  using assms by (subst genLoop.simps) (simp add: Let_def)

lemma genLoop_push:
  assumes "i < count'"
    and "generateContextualQuestion rnd k (questionTypeAt i) ents text (paragraphNumberAt i) = (cq, k1)"
    and "cq_question cq \<noteq> []" and "cq_correctAnswer cq \<noteq> []"
    and "shuffleArray rnd k1
           (buildOptions i (cq_correctAnswer cq)
              (generatePlausibleDistractors (cq_correctAnswer cq) ents d)) = (opts, k2)"
  shows "genLoop rnd text count' d incl ents i k qs =
         genLoop rnd text count' d incl ents (i + 1) k2
           (qs @ [newQuestion i (questionTypeAt i) cq opts incl])"
  using assms by (subst genLoop.simps) (simp add: Let_def)

text \<open>
  Every question of the result is one of the questions the loop was entered with or the
  question of a slot whose synthesis gave a question and an answer.
\<close>

lemma genLoop_all:
  assumes step: "\<And>j k0 cq k1 opts k2.
      \<lbrakk>j < count';
       generateContextualQuestion rnd k0 (questionTypeAt j) ents text (paragraphNumberAt j) = (cq, k1);
       cq_question cq \<noteq> []; cq_correctAnswer cq \<noteq> [];
       shuffleArray rnd k1
         (buildOptions j (cq_correctAnswer cq)
            (generatePlausibleDistractors (cq_correctAnswer cq) ents d)) = (opts, k2)\<rbrakk>
      \<Longrightarrow> P (newQuestion j (questionTypeAt j) cq opts incl)"
    and init: "\<And>q. q \<in> set qs \<Longrightarrow> P q"
    and mem: "q \<in> set (fst (genLoop rnd text count' d incl ents i k qs))"
  shows "P q"
  using init mem
proof (induction "count' - i" arbitrary: i k qs)
  case 0
  then have "\<not> i < count'" by simp
  with "0.prems" show ?case by (simp add: genLoop_done)
next
  case (Suc n)
  then have lt: "i < count'" and n: "n = count' - (i + 1)" by simp_all
  obtain cq k1 where g:
    "generateContextualQuestion rnd k (questionTypeAt i) ents text (paragraphNumberAt i) = (cq, k1)"
    by (cases "generateContextualQuestion rnd k (questionTypeAt i) ents text (paragraphNumberAt i)")
  show ?case
  proof (cases "cq_question cq = [] \<or> cq_correctAnswer cq = []")
    case True
    from Suc.prems(2) have "q \<in> set (fst (genLoop rnd text count' d incl ents (i + 1) k1 qs))"
      by (simp only: genLoop_skip [OF lt g True])
    from Suc.hyps(1) [OF n Suc.prems(1) this] show ?thesis .
  next
    case False
    then have q1: "cq_question cq \<noteq> []" and q2: "cq_correctAnswer cq \<noteq> []" by simp_all
    obtain opts k2 where sh:
      "shuffleArray rnd k1
         (buildOptions i (cq_correctAnswer cq)
            (generatePlausibleDistractors (cq_correctAnswer cq) ents d)) = (opts, k2)"
      by (cases "shuffleArray rnd k1
         (buildOptions i (cq_correctAnswer cq)
            (generatePlausibleDistractors (cq_correctAnswer cq) ents d))")
    let ?new = "newQuestion i (questionTypeAt i) cq opts incl"
    have new: "P ?new" by (rule step [OF lt g q1 q2 sh])
    have init': "\<And>q'. q' \<in> set (qs @ [?new]) \<Longrightarrow> P q'"
      using Suc.prems(1) new by auto
    from Suc.prems(2) have "q \<in> set (fst (genLoop rnd text count' d incl ents (i + 1) k2 (qs @ [?new])))"
      by (simp only: genLoop_push [OF lt g q1 q2 sh])
    from Suc.hyps(1) [OF n init' this] show ?thesis .
  qed
qed

lemma genLoop_length:
  "length (fst (genLoop rnd text count' d incl ents i k qs)) \<le> length qs + (count' - i)"
proof (induction "count' - i" arbitrary: i k qs)
  case 0
  then have "\<not> i < count'" by simp
  then show ?case by (simp add: genLoop_done)
next
  case (Suc n)
  then have lt: "i < count'" and n: "n = count' - (i + 1)" by simp_all
  obtain cq k1 where g:
    "generateContextualQuestion rnd k (questionTypeAt i) ents text (paragraphNumberAt i) = (cq, k1)"
    by (cases "generateContextualQuestion rnd k (questionTypeAt i) ents text (paragraphNumberAt i)")
  show ?case
  proof (cases "cq_question cq = [] \<or> cq_correctAnswer cq = []")
    case True
    have "length (fst (genLoop rnd text count' d incl ents (i + 1) k1 qs)) \<le> length qs + (count' - (i + 1))"
      by (rule Suc.hyps(1) [OF n])
    then show ?thesis using lt
      unfolding genLoop_skip [OF lt g True] by simp
  next
    case False
    then have q1: "cq_question cq \<noteq> []" and q2: "cq_correctAnswer cq \<noteq> []" by simp_all
    obtain opts k2 where sh:
      "shuffleArray rnd k1
         (buildOptions i (cq_correctAnswer cq)
            (generatePlausibleDistractors (cq_correctAnswer cq) ents d)) = (opts, k2)"
      by (cases "shuffleArray rnd k1
         (buildOptions i (cq_correctAnswer cq)
            (generatePlausibleDistractors (cq_correctAnswer cq) ents d))")
    let ?new = "newQuestion i (questionTypeAt i) cq opts incl"
    have "length (fst (genLoop rnd text count' d incl ents (i + 1) k2 (qs @ [?new])))
            \<le> length (qs @ [?new]) + (count' - (i + 1))"
      by (rule Suc.hyps(1) [OF n])
    then show ?thesis using lt
      unfolding genLoop_push [OF lt g q1 q2 sh] by simp
  qed
qed

text \<open>A slot whose synthesis has no answer leaves the questions as they are.\<close>

lemma genLoop_all_blank:
  assumes "\<And>j k0. j < count' \<Longrightarrow>
     cq_correctAnswer (fst (generateContextualQuestion rnd k0 (questionTypeAt j) ents text (paragraphNumberAt j))) = []"
  shows "fst (genLoop rnd text count' d incl ents i k qs) = qs"
proof (induction "count' - i" arbitrary: i k)
  case 0
  then have "\<not> i < count'" by simp
  then show ?case by (simp add: genLoop_done)
next
  case (Suc n)
  then have lt: "i < count'" and n: "n = count' - (i + 1)" by simp_all
  obtain cq k1 where g:
    "generateContextualQuestion rnd k (questionTypeAt i) ents text (paragraphNumberAt i) = (cq, k1)"
    by (cases "generateContextualQuestion rnd k (questionTypeAt i) ents text (paragraphNumberAt i)")
  from assms [OF lt, of k] g have "cq_question cq = [] \<or> cq_correctAnswer cq = []" by simp
  have "genLoop rnd text count' d incl ents i k qs = genLoop rnd text count' d incl ents (i + 1) k1 qs"
    by (rule genLoop_skip [OF lt g]) fact
  then show ?case using Suc.hyps(1) [OF n, of k1] by (simp only:)
qed

lemma buildOptions_length: "length (buildOptions i ca ds) = Suc (length ds)"
  by (simp add: buildOptions_def)

lemma distractor_options_incorrect:
  "filter isCorrect (map (\<lambda>(j, d). \<lparr> oid = f j, otext = d, isCorrect = False \<rparr>) xs) = []"
  by (induction xs) auto

lemma buildOptions_correct:
  "filter isCorrect (buildOptions i ca ds)
     = [\<lparr> oid = ''q'' @ showNat (i + 1) @ ''_a'', otext = ca, isCorrect = True \<rparr>]"
  unfolding buildOptions_def by (simp add: distractor_options_incorrect)

lemma mset_eq_filter_length:
  assumes "mset xs = mset ys"
  shows "length (filter P xs) = length (filter P ys)"
proof -
  have "mset (filter P xs) = mset (filter P ys)" by (simp only: mset_filter assms)
  then have "size (mset (filter P xs)) = size (mset (filter P ys))" by (rule arg_cong)
  then show ?thesis by (simp only: size_mset)
qed

lemma shuffled_options:
  assumes "shuffleArray rnd k1 (buildOptions i ca (generatePlausibleDistractors ca ents d)) = (opts, k2)"
  shows "length opts = 4"
    and "filter isCorrect opts = [\<lparr> oid = ''q'' @ showNat (i + 1) @ ''_a'', otext = ca, isCorrect = True \<rparr>]"
proof -
  let ?b = "buildOptions i ca (generatePlausibleDistractors ca ents d)"
  let ?c = "\<lparr> oid = ''q'' @ showNat (i + 1) @ ''_a'', otext = ca, isCorrect = True \<rparr>"
  have "mset (fst (shuffleArray rnd k1 ?b)) = mset ?b" by (rule shuffleArray_mset)
  then have m: "mset opts = mset ?b" by (simp only: assms fst_conv)
  then have "size (mset opts) = size (mset ?b)" by (rule arg_cong)
  then have "length opts = length ?b" by (simp only: size_mset)
  then show "length opts = 4"
    by (simp add: buildOptions_length generatePlausibleDistractors_length)
  have "length (filter isCorrect opts) = length (filter isCorrect ?b)"
    by (rule mset_eq_filter_length [OF m])
  then have l: "length (filter isCorrect opts) = 1" by (simp add: buildOptions_correct)
  have "set opts = set ?b" by (rule mset_eq_setD [OF m])
  then have "set (filter isCorrect opts) = set (filter isCorrect ?b)" by simp
  then have s: "set (filter isCorrect opts) = {?c}"
    by (simp only: buildOptions_correct list.set)
  from l obtain x where x: "filter isCorrect opts = [x]"
    by (cases "filter isCorrect opts") auto
  with s have "x = ?c" by simp
  with x show "filter isCorrect opts = [?c]" by simp
qed

lemma gcq_sourceReference:
  "cq_sourceReference (fst (generateContextualQuestion rnd k t ents text pn)) = ''Paragraph '' @ showNat pn"
  by (cases t) (simp_all add: Let_def split: prod.splits)

lemma questionTypes_length: "length questionTypes = 5"
  by (simp add: questionTypes_def)

lemma heat_run_True:
  "fst (generateMockQuestions (\<lambda>_. Draw 0 0) 0 ''Heat causes expansion.'' 2 Medium True) =
     [\<lparr>qid = ''q2'', question = ''What is the effect of Heat?'',
       options =
         [\<lparr>oid = ''q2_b'', otext = ''The relationship is indirect'', isCorrect = False\<rparr>,
          \<lparr>oid = ''q2_c'', otext = ''Multiple steps are skipped'', isCorrect = False\<rparr>,
          \<lparr>oid = ''q2_d'', otext = ''The effect is temporary'', isCorrect = False\<rparr>,
          \<lparr>oid = ''q2_a'', otext = ''Heat causes expansion'', isCorrect = True\<rparr>],
       explanation = Some (''As stated in Paragraph 1: '' @ [CHR 0x22] @ ''Heat causes expansion'' @ [CHR 0x22]),
       cognitiveLevel = Understand, qtype = CauseEffect,
       sourceReference = ''Paragraph 1''\<rparr>]"
  by code_simp

lemma heat_run_False:
  "fst (generateMockQuestions (\<lambda>_. Draw 0 0) 0 ''Heat causes expansion.'' 2 Medium False) =
     [\<lparr>qid = ''q2'', question = ''What is the effect of Heat?'',
       options =
         [\<lparr>oid = ''q2_b'', otext = ''The relationship is indirect'', isCorrect = False\<rparr>,
          \<lparr>oid = ''q2_c'', otext = ''Multiple steps are skipped'', isCorrect = False\<rparr>,
          \<lparr>oid = ''q2_d'', otext = ''The effect is temporary'', isCorrect = False\<rparr>,
          \<lparr>oid = ''q2_a'', otext = ''Heat causes expansion'', isCorrect = True\<rparr>],
       explanation = None,
       cognitiveLevel = Understand, qtype = CauseEffect,
       sourceReference = ''Paragraph 1''\<rparr>]"
  by code_simp

text \<open>
  Claim C1. Every question that \<^verbatim>\<open>generateMockQuestions\<close> returns has exactly four
  options, and exactly one of them has \<^verbatim>\<open>isCorrect = true\<close>, for every text, count,
  difficulty, explanation flag and random source.
\<close>

theorem options_four_one_correct:
  "\<forall>q \<in> set (fst (generateMockQuestions rnd k text count' difficulty includeExplanations)).
     length (options q) = 4 \<and> length (filter isCorrect (options q)) = 1"
proof
  fix q
  assume "q \<in> set (fst (generateMockQuestions rnd k text count' difficulty includeExplanations))"
  then have mem: "q \<in> set (fst (genLoop rnd text count' difficulty includeExplanations
                                   (extractEntities text) 0 k []))"
    by (simp add: generateMockQuestions_def Let_def)
  show "length (options q) = 4 \<and> length (filter isCorrect (options q)) = 1"
  proof (rule genLoop_all [OF _ _ mem])
    fix j k0 k1 k2 opts and cq :: ContextualQuestion
    assume "shuffleArray rnd k1
         (buildOptions j (cq_correctAnswer cq)
            (generatePlausibleDistractors (cq_correctAnswer cq) (extractEntities text) difficulty)) = (opts, k2)"
    from shuffled_options [OF this]
    show "length (options (newQuestion j (questionTypeAt j) cq opts includeExplanations)) = 4
        \<and> length (filter isCorrect (options (newQuestion j (questionTypeAt j) cq opts includeExplanations))) = 1"
      by (simp add: newQuestion_def)
  next
    fix q' :: MCQuestion
    assume "q' \<in> set []"
    then show "length (options q') = 4 \<and> length (filter isCorrect (options q')) = 1" by simp
  qed
qed

theorem options_four_one_correct_witness:
  "(let qs = fst (generateMockQuestions (\<lambda>_. Draw 0 0) 0 ''Heat causes expansion.'' 2 Medium True)
    in length qs = 1
       \<and> length (options (hd qs)) = 4
       \<and> length (filter isCorrect (options (hd qs))) = 1
       \<and> map otext (filter isCorrect (options (hd qs))) = [''Heat causes expansion''])"
proof -
  let ?qs = "fst (generateMockQuestions (\<lambda>_. Draw 0 0) 0 ''Heat causes expansion.'' 2 Medium True)"
  have l: "length ?qs = 1" by (simp only: heat_run_True) simp
  then have "hd ?qs \<in> set ?qs" by (cases ?qs) simp_all
  with options_four_one_correct [of "\<lambda>_. Draw 0 0" 0 "''Heat causes expansion.''" 2 Medium True]
  have a: "length (options (hd ?qs)) = 4 \<and> length (filter isCorrect (options (hd ?qs))) = 1"
    by blast
  have b: "map otext (filter isCorrect (options (hd ?qs))) = [''Heat causes expansion'']"
    by (simp only: heat_run_True) simp
  from l a b show ?thesis by (simp only: Let_def) 
qed

text \<open>
  Claim C4. Slot \<open>i\<close> asks for the question type at index \<open>i mod 5\<close> of the list
  definition, cause-effect, comparison, sequencing, scenario, and for the paragraph
  \<open>i div 5 + 1\<close>; for 12 slots the types are that list twice and then definition and
  cause-effect. Every question of the result carries the type and the paragraph of its
  slot, the slot being the one its identifier names.
\<close>

theorem cyclic_type_assignment:
  "questionTypeAt i = [Definition, CauseEffect, Comparison, Sequencing, Scenario] ! (i mod 5)
   \<and> paragraphNumberAt i = i div 5 + 1
   \<and> map questionTypeAt [0 ..< 12] =
       [Definition, CauseEffect, Comparison, Sequencing, Scenario,
        Definition, CauseEffect, Comparison, Sequencing, Scenario,
        Definition, CauseEffect]
   \<and> (\<forall>q \<in> set (fst (generateMockQuestions rnd k text count' difficulty includeExplanations)).
        \<exists>j < count'.
          qid q = ''q'' @ showNat (j + 1)
          \<and> qtype q = [Definition, CauseEffect, Comparison, Sequencing, Scenario] ! (j mod 5)
          \<and> sourceReference q = ''Paragraph '' @ showNat (j div 5 + 1))"
proof (intro conjI ballI)
  show "questionTypeAt i = [Definition, CauseEffect, Comparison, Sequencing, Scenario] ! (i mod 5)"
    by (simp add: questionTypeAt_def questionTypes_def)
  show "paragraphNumberAt i = i div 5 + 1"
    by (simp add: paragraphNumberAt_def questionTypes_def)
  show "map questionTypeAt [0 ..< 12] =
       [Definition, CauseEffect, Comparison, Sequencing, Scenario,
        Definition, CauseEffect, Comparison, Sequencing, Scenario,
        Definition, CauseEffect]"
    by code_simp
next
  fix q
  assume "q \<in> set (fst (generateMockQuestions rnd k text count' difficulty includeExplanations))"
  then have mem: "q \<in> set (fst (genLoop rnd text count' difficulty includeExplanations
                                   (extractEntities text) 0 k []))"
    by (simp add: generateMockQuestions_def Let_def)
  show "\<exists>j < count'.
          qid q = ''q'' @ showNat (j + 1)
          \<and> qtype q = [Definition, CauseEffect, Comparison, Sequencing, Scenario] ! (j mod 5)
          \<and> sourceReference q = ''Paragraph '' @ showNat (j div 5 + 1)"
  proof (rule genLoop_all [OF _ _ mem])
    fix j k0 k1 k2 opts and cq :: ContextualQuestion
    assume lt: "j < count'"
      and g: "generateContextualQuestion rnd k0 (questionTypeAt j) (extractEntities text) text
                (paragraphNumberAt j) = (cq, k1)"
    have "cq_sourceReference cq = ''Paragraph '' @ showNat (paragraphNumberAt j)"
      using gcq_sourceReference [of rnd k0 "questionTypeAt j" "extractEntities text" "text" "paragraphNumberAt j"] g
      by simp
    then have "qid (newQuestion j (questionTypeAt j) cq opts includeExplanations) = ''q'' @ showNat (j + 1)
          \<and> qtype (newQuestion j (questionTypeAt j) cq opts includeExplanations)
              = [Definition, CauseEffect, Comparison, Sequencing, Scenario] ! (j mod 5)
          \<and> sourceReference (newQuestion j (questionTypeAt j) cq opts includeExplanations)
              = ''Paragraph '' @ showNat (j div 5 + 1)"
      by (simp add: newQuestion_def questionTypeAt_def paragraphNumberAt_def questionTypes_def)
    with lt show "\<exists>j' < count'.
          qid (newQuestion j (questionTypeAt j) cq opts includeExplanations) = ''q'' @ showNat (j' + 1)
          \<and> qtype (newQuestion j (questionTypeAt j) cq opts includeExplanations)
              = [Definition, CauseEffect, Comparison, Sequencing, Scenario] ! (j' mod 5)
          \<and> sourceReference (newQuestion j (questionTypeAt j) cq opts includeExplanations)
              = ''Paragraph '' @ showNat (j' div 5 + 1)"
      by blast
  next
    fix q' :: MCQuestion
    assume "q' \<in> set []"
    then show "\<exists>j < count'.
          qid q' = ''q'' @ showNat (j + 1)
          \<and> qtype q' = [Definition, CauseEffect, Comparison, Sequencing, Scenario] ! (j mod 5)
          \<and> sourceReference q' = ''Paragraph '' @ showNat (j div 5 + 1)" by simp
  qed
qed

theorem cyclic_type_assignment_witness:
  "(let qs = fst (generateMockQuestions (\<lambda>_. Draw 0 0) 0 ''Heat causes expansion.'' 2 Medium True)
    in length qs = 1
       \<and> (\<exists>j < 2. qid (hd qs) = ''q'' @ showNat (j + 1)
              \<and> qtype (hd qs) = [Definition, CauseEffect, Comparison, Sequencing, Scenario] ! (j mod 5)
              \<and> sourceReference (hd qs) = ''Paragraph '' @ showNat (j div 5 + 1))
       \<and> qtype (hd qs) = CauseEffect
       \<and> sourceReference (hd qs) = ''Paragraph 1'')"
proof -
  let ?qs = "fst (generateMockQuestions (\<lambda>_. Draw 0 0) 0 ''Heat causes expansion.'' 2 Medium True)"
  have l: "length ?qs = 1" by (simp only: heat_run_True) simp
  then have "hd ?qs \<in> set ?qs" by (cases ?qs) simp_all
  with cyclic_type_assignment [of 0 "\<lambda>_. Draw 0 0" 0 "''Heat causes expansion.''" 2 Medium True]
  have a: "\<exists>j < 2. qid (hd ?qs) = ''q'' @ showNat (j + 1)
              \<and> qtype (hd ?qs) = [Definition, CauseEffect, Comparison, Sequencing, Scenario] ! (j mod 5)
              \<and> sourceReference (hd ?qs) = ''Paragraph '' @ showNat (j div 5 + 1)"
    by blast
  have b: "qtype (hd ?qs) = CauseEffect \<and> sourceReference (hd ?qs) = ''Paragraph 1''"
    by (simp only: heat_run_True) simp
  from l a b show ?thesis by (simp only: Let_def)
qed

text \<open>
  Claim C6. When explanations are switched off no question of the result has an
  explanation. When they are switched on, every question of the result has the
  explanation \<^verbatim>\<open>As stated in Paragraph N: "answer"\<close>, where \<open>N\<close> is the paragraph
  of its slot, the one its source reference names, and the answer is the text of its
  correct option.
\<close>

theorem explanation_toggle:
  "(\<forall>q \<in> set (fst (generateMockQuestions rnd k text count' difficulty False)).
      explanation q = None)
   \<and> (\<forall>q \<in> set (fst (generateMockQuestions rnd k text count' difficulty True)).
        \<exists>j < count'. \<exists>c.
          filter isCorrect (options q) = [c]
          \<and> qid q = ''q'' @ showNat (j + 1)
          \<and> sourceReference q = ''Paragraph '' @ showNat (j div 5 + 1)
          \<and> explanation q =
              Some (''As stated in Paragraph '' @ showNat (j div 5 + 1) @ '': ''
                    @ [CHR 0x22] @ otext c @ [CHR 0x22]))"
proof (intro conjI ballI)
  fix q
  assume "q \<in> set (fst (generateMockQuestions rnd k text count' difficulty False))"
  then have mem: "q \<in> set (fst (genLoop rnd text count' difficulty False (extractEntities text) 0 k []))"
    by (simp add: generateMockQuestions_def Let_def)
  show "explanation q = None"
  proof (rule genLoop_all [OF _ _ mem])
    fix j and cq :: ContextualQuestion and opts
    show "explanation (newQuestion j (questionTypeAt j) cq opts False) = None"
      by (simp add: newQuestion_def)
  next
    fix q' :: MCQuestion
    assume "q' \<in> set []"
    then show "explanation q' = None" by simp
  qed
next
  fix q
  assume "q \<in> set (fst (generateMockQuestions rnd k text count' difficulty True))"
  then have mem: "q \<in> set (fst (genLoop rnd text count' difficulty True (extractEntities text) 0 k []))"
    by (simp add: generateMockQuestions_def Let_def)
  show "\<exists>j < count'. \<exists>c.
          filter isCorrect (options q) = [c]
          \<and> qid q = ''q'' @ showNat (j + 1)
          \<and> sourceReference q = ''Paragraph '' @ showNat (j div 5 + 1)
          \<and> explanation q =
              Some (''As stated in Paragraph '' @ showNat (j div 5 + 1) @ '': ''
                    @ [CHR 0x22] @ otext c @ [CHR 0x22])"
  proof (rule genLoop_all [OF _ _ mem])
    fix j k0 k1 k2 opts and cq :: ContextualQuestion
    assume lt: "j < count'"
      and g: "generateContextualQuestion rnd k0 (questionTypeAt j) (extractEntities text) text
                (paragraphNumberAt j) = (cq, k1)"
      and sh: "shuffleArray rnd k1
         (buildOptions j (cq_correctAnswer cq)
            (generatePlausibleDistractors (cq_correctAnswer cq) (extractEntities text) difficulty)) = (opts, k2)"
    let ?q = "newQuestion j (questionTypeAt j) cq opts True"
    let ?c = "\<lparr> oid = ''q'' @ showNat (j + 1) @ ''_a'', otext = cq_correctAnswer cq, isCorrect = True \<rparr>"
    have sr: "cq_sourceReference cq = ''Paragraph '' @ showNat (j div 5 + 1)"
      using gcq_sourceReference [of rnd k0 "questionTypeAt j" "extractEntities text" "text" "paragraphNumberAt j"] g
      by (simp add: paragraphNumberAt_def questionTypes_def)
    have c: "filter isCorrect (options ?q) = [?c]"
      using shuffled_options(2) [OF sh] by (simp add: newQuestion_def)
    have "qid ?q = ''q'' @ showNat (j + 1)
          \<and> sourceReference ?q = ''Paragraph '' @ showNat (j div 5 + 1)
          \<and> explanation ?q =
              Some (''As stated in Paragraph '' @ showNat (j div 5 + 1) @ '': ''
                    @ [CHR 0x22] @ otext ?c @ [CHR 0x22])"
      by (simp add: newQuestion_def sr)
    with lt c show "\<exists>j' < count'. \<exists>c.
          filter isCorrect (options ?q) = [c]
          \<and> qid ?q = ''q'' @ showNat (j' + 1)
          \<and> sourceReference ?q = ''Paragraph '' @ showNat (j' div 5 + 1)
          \<and> explanation ?q =
              Some (''As stated in Paragraph '' @ showNat (j' div 5 + 1) @ '': ''
                    @ [CHR 0x22] @ otext c @ [CHR 0x22])"
      by blast
  next
    fix q' :: MCQuestion
    assume "q' \<in> set []"
    then show "\<exists>j < count'. \<exists>c.
          filter isCorrect (options q') = [c]
          \<and> qid q' = ''q'' @ showNat (j + 1)
          \<and> sourceReference q' = ''Paragraph '' @ showNat (j div 5 + 1)
          \<and> explanation q' =
              Some (''As stated in Paragraph '' @ showNat (j div 5 + 1) @ '': ''
                    @ [CHR 0x22] @ otext c @ [CHR 0x22])" by simp
  qed
qed

theorem explanation_toggle_witness:
  "(let off = fst (generateMockQuestions (\<lambda>_. Draw 0 0) 0 ''Heat causes expansion.'' 2 Medium False);
        on = fst (generateMockQuestions (\<lambda>_. Draw 0 0) 0 ''Heat causes expansion.'' 2 Medium True)
    in length off = 1 \<and> explanation (hd off) = None
       \<and> length on = 1
       \<and> explanation (hd on)
           = Some (''As stated in Paragraph 1: '' @ [CHR 0x22] @ ''Heat causes expansion'' @ [CHR 0x22])
       \<and> (\<exists>j < 2. \<exists>c.
             filter isCorrect (options (hd on)) = [c]
             \<and> qid (hd on) = ''q'' @ showNat (j + 1)
             \<and> sourceReference (hd on) = ''Paragraph '' @ showNat (j div 5 + 1)
             \<and> explanation (hd on) =
                 Some (''As stated in Paragraph '' @ showNat (j div 5 + 1) @ '': ''
                       @ [CHR 0x22] @ otext c @ [CHR 0x22])))"
proof -
  let ?off = "fst (generateMockQuestions (\<lambda>_. Draw 0 0) 0 ''Heat causes expansion.'' 2 Medium False)"
  let ?on = "fst (generateMockQuestions (\<lambda>_. Draw 0 0) 0 ''Heat causes expansion.'' 2 Medium True)"
  note inst = explanation_toggle [of "\<lambda>_. Draw 0 0" 0 "''Heat causes expansion.''" 2 Medium]
  have l0: "length ?off = 1" by (simp only: heat_run_False) simp
  then have "hd ?off \<in> set ?off" by (cases ?off) simp_all
  with inst have a: "explanation (hd ?off) = None" by blast
  have l1: "length ?on = 1" by (simp only: heat_run_True) simp
  then have "hd ?on \<in> set ?on" by (cases ?on) simp_all
  with inst have b: "\<exists>j < 2. \<exists>c.
             filter isCorrect (options (hd ?on)) = [c]
             \<and> qid (hd ?on) = ''q'' @ showNat (j + 1)
             \<and> sourceReference (hd ?on) = ''Paragraph '' @ showNat (j div 5 + 1)
             \<and> explanation (hd ?on) =
                 Some (''As stated in Paragraph '' @ showNat (j div 5 + 1) @ '': ''
                       @ [CHR 0x22] @ otext c @ [CHR 0x22])"
    by blast
  have c: "explanation (hd ?on)
           = Some (''As stated in Paragraph 1: '' @ [CHR 0x22] @ ''Heat causes expansion'' @ [CHR 0x22])"
    by (simp only: heat_run_True) simp
  from l0 a l1 b c show ?thesis by (simp only: Let_def)
qed

subsection \<open>A text without cue phrases\<close>

lemma hello_entities:
  "extractEntities ''Hello world. This is plain text with no markers.''
     = \<lparr>processes = [], structures = [], concepts = [], relationships = []\<rparr>"
  by code_simp

lemma hello_paragraphs:
  "splitRe blankLine ''Hello world. This is plain text with no markers.''
     = [''Hello world. This is plain text with no markers.'']"
  by code_simp

lemma hello_selectParagraph:
  "selectParagraph ''Hello world. This is plain text with no markers.'' pn
     = ''Hello world. This is plain text with no markers.''"
  by (simp add: selectParagraph_def hello_paragraphs at_def)

lemma hello_no_undefined:
  "findSentence (\<lambda>s. includesStr (toLowerCase s) ''undefined'')
     ''Hello world. This is plain text with no markers.'' = []"
  by code_simp

lemma hello_no_causal:
  "findSentence (reTest causalVerbs) ''Hello world. This is plain text with no markers.'' = []"
  by code_simp

lemma trim_Nil: "trim [] = []"
  by (simp add: trim_def)

lemma hello_blank:
  "cq_correctAnswer (fst (generateContextualQuestion rnd k0 t
       \<lparr>processes = [], structures = [], concepts = [], relationships = []\<rparr>
       ''Hello world. This is plain text with no markers.'' pn)) = []"
  by (cases t)
     (simp_all add: Let_def at_def toStr_def hello_selectParagraph hello_no_undefined
        hello_no_causal trim_Nil del: One_nat_def)

text \<open>
  Claim C3. \<^verbatim>\<open>generateMockQuestions\<close> returns at most \<^verbatim>\<open>count\<close> questions, for every
  input; for the text \<^verbatim>\<open>Hello world. This is plain text with no markers.\<close>, ten
  slots, medium difficulty and explanations on, it returns the empty list: every slot
  is skipped and nothing stands in for it.
\<close>

theorem generate_at_most_count_and_skip:
  "length (fst (generateMockQuestions rnd k text count' difficulty includeExplanations)) \<le> count'
   \<and> fst (generateMockQuestions rnd' k' ''Hello world. This is plain text with no markers.'' 10 Medium True) = []"
proof
  show "length (fst (generateMockQuestions rnd k text count' difficulty includeExplanations)) \<le> count'"
    using genLoop_length [of rnd "text" count' difficulty includeExplanations "extractEntities text" 0 k "[]"]
    by (simp add: generateMockQuestions_def Let_def)
  show "fst (generateMockQuestions rnd' k' ''Hello world. This is plain text with no markers.'' 10 Medium True) = []"
    unfolding generateMockQuestions_def Let_def hello_entities
    by (rule genLoop_all_blank) (rule hello_blank)
qed

subsection \<open>Strings and patterns\<close>

lemma trim_nonempty:
  assumes "\<exists>c \<in> set s. \<not> isSpace c"
  shows "trim s \<noteq> []"
proof
  assume "trim s = []"
  then have "\<forall>x \<in> set (dropWhile isSpace s). isSpace x"
    by (simp add: trim_def dropWhile_eq_Nil_conv)
  moreover from assms have ne: "dropWhile isSpace s \<noteq> []"
    by (simp add: dropWhile_eq_Nil_conv)
  then have "\<not> isSpace (hd (dropWhile isSpace s))" by (rule hd_dropWhile)
  moreover from ne have "hd (dropWhile isSpace s) \<in> set (dropWhile isSpace s)" by simp
  ultimately show False by blast
qed

lemma execFrom_Some:
  "execFrom m s i = Some (j, x) \<Longrightarrow> i \<le> j \<and> j \<le> length s \<and> m (drop j s) \<noteq> [] \<and> x = hd (m (drop j s))"
proof (induction m s i rule: execFrom.induct)
  case (1 m s i)
  show ?case
  proof (cases "i > length s")
    case True
    with "1.prems" show ?thesis by (simp add: execFrom.simps [of m s i])
  next
    case False
    show ?thesis
    proof (cases "m (drop i s)")
      case Nil
      with False "1.prems" have "execFrom m s (i + 1) = Some (j, x)"
        by (simp add: execFrom.simps [of m s i])
      from "1.IH" [OF False Nil this] show ?thesis by simp
    next
      case (Cons y ys)
      with False "1.prems" have "j = i" and "x = y"
        by (simp_all add: execFrom.simps [of m s i])
      with False Cons show ?thesis by simp
    qed
  qed
qed

lemma execFrom_None:
  "execFrom m s i = None \<Longrightarrow> i \<le> j \<Longrightarrow> j \<le> length s \<Longrightarrow> m (drop j s) = []"
proof (induction m s i rule: execFrom.induct)
  case (1 m s i)
  from "1.prems" have le: "\<not> i > length s" by simp
  show ?case
  proof (cases "m (drop i s)")
    case Nil
    show ?thesis
    proof (cases "j = i")
      case True
      with Nil show ?thesis by simp
    next
      case False
      with "1.prems" have "i + 1 \<le> j" by simp
      moreover from le Nil "1.prems"(1) have "execFrom m s (i + 1) = None"
        by (simp add: execFrom.simps [of m s i])
      ultimately show ?thesis using "1.IH" [OF le Nil] "1.prems"(3) by blast
    qed
  next
    case (Cons y ys)
    with le "1.prems"(1) show ?thesis by (simp add: execFrom.simps [of m s i])
  qed
qed

lemma litMatches_Cons:
  "litMatches ic (p # ps) t \<Longrightarrow> \<exists>c cs. t = c # cs \<and> charEq ic p c"
  by (cases t) simp_all

lemma canonicalize_space: "isSpace c \<Longrightarrow> canonicalize c = c"
  by (auto simp: isSpace_def canonicalize_def)

lemma canonicalize_letters:
  "canonicalize CHR ''c'' = CHR ''C''" "canonicalize CHR ''r'' = CHR ''R''"
  "canonicalize CHR ''l'' = CHR ''L''" "canonicalize CHR ''p'' = CHR ''P''"
  "canonicalize CHR ''t'' = CHR ''T''"
  by (simp_all add: canonicalize_def char_of_eq_iff)

lemma causalVerbs_first:
  assumes "causalVerbs t \<noteq> []"
  shows "\<exists>c cs. t = c # cs \<and> \<not> isSpace c"
proof -
  from assms obtain p ps where m: "litMatches True (p # ps) t" and p: "p \<in> set ''crlpt''"
    by (auto simp: causalVerbs_def reAlt_def reLit_def split: if_splits)
  from litMatches_Cons [OF m] obtain c cs where t: "t = c # cs" and e: "canonicalize p = canonicalize c"
    by (auto simp: charEq_def)
  have "\<not> isSpace c"
  proof
    assume sp: "isSpace c"
    then have "canonicalize p = c" using e by (simp add: canonicalize_space)
    with p sp show False by (auto simp: canonicalize_letters isSpace_def)
  qed
  with t show ?thesis by blast
qed

lemma reTest_causalVerbs_nonspace:
  assumes "reTest causalVerbs s"
  shows "\<exists>c \<in> set s. \<not> isSpace c"
proof -
  from assms obtain j x where "execFrom causalVerbs s 0 = Some (j, x)"
    by (auto simp: reTest_def)
  from execFrom_Some [OF this] have "causalVerbs (drop j s) \<noteq> []" by simp
  from causalVerbs_first [OF this] obtain c cs where d: "drop j s = c # cs" and c: "\<not> isSpace c"
    by blast
  from d have "c \<in> set (drop j s)" by simp
  then have "c \<in> set s" by (rule in_set_dropD)
  with c show ?thesis by blast
qed

lemma findSentence_found:
  assumes "\<exists>s \<in> set (splitRe sentenceEnd paragraph). pred s"
  shows "pred (findSentence pred paragraph)"
proof -
  from assms obtain s where "find pred (splitRe sentenceEnd paragraph) = Some s"
    by (cases "find pred (splitRe sentenceEnd paragraph)") (auto simp: find_None_iff)
  moreover from this have "pred s" by (auto simp: find_Some_iff)
  ultimately show ?thesis by (simp add: findSentence_def)
qed


text \<open>
  The pieces of a \<^verbatim>\<open>split\<close> on the causal verbs are never an empty list, so the
  read of piece 0 in the cause-effect branch is always in range.
\<close>

lemma splitFrom_nonempty: "splitFrom m s p q \<noteq> []"
proof (induction m s p q rule: splitFrom.induct)
  case (1 m s p q)
  show ?case
  proof (cases "q < length s")
    case False
    then show ?thesis by (simp add: splitFrom.simps [of m s p q])
  next
    case True
    show ?thesis
    proof (cases "m (drop q s)")
      case Nil
      with True "1.IH"(1) show ?thesis by (simp add: splitFrom.simps [of m s p q])
    next
      case (Cons n ns)
      show ?thesis
      proof (cases "min (q + n) (length s) = p")
        case e: True
        from "1.IH"(2) [OF True Cons refl e] True Cons e show ?thesis
          by (simp add: splitFrom.simps [of m s p q] Let_def)
      next
        case e: False
        with True Cons show ?thesis by (simp add: splitFrom.simps [of m s p q] Let_def)
      qed
    qed
  qed
qed

lemma splitRe_causalVerbs_nonempty: "splitRe causalVerbs s \<noteq> []"
proof (cases "s = []")
  case True
  have "causalVerbs [] = []" by (simp add: causalVerbs_def reAlt_def reLit_def)
  with True show ?thesis by (simp add: splitRe_def)
next
  case False
  then show ?thesis by (simp add: splitRe_def splitFrom_nonempty)
qed

lemma genLoop_keeps:
  "set qs \<subseteq> set (fst (genLoop rnd text count' d incl ents i k qs))"
proof (induction "count' - i" arbitrary: i k qs)
  case 0
  then have "\<not> i < count'" by simp
  then show ?case by (simp add: genLoop_done)
next
  case (Suc n)
  then have lt: "i < count'" and n: "n = count' - (i + 1)" by simp_all
  obtain cq k1 where g:
    "generateContextualQuestion rnd k (questionTypeAt i) ents text (paragraphNumberAt i) = (cq, k1)"
    by (cases "generateContextualQuestion rnd k (questionTypeAt i) ents text (paragraphNumberAt i)")
  show ?case
  proof (cases "cq_question cq = [] \<or> cq_correctAnswer cq = []")
    case True
    show ?thesis unfolding genLoop_skip [OF lt g True] by (rule Suc.hyps(1) [OF n])
  next
    case False
    then have q1: "cq_question cq \<noteq> []" and q2: "cq_correctAnswer cq \<noteq> []" by simp_all
    obtain opts k2 where sh:
      "shuffleArray rnd k1
         (buildOptions i (cq_correctAnswer cq)
            (generatePlausibleDistractors (cq_correctAnswer cq) ents d)) = (opts, k2)"
      by (cases "shuffleArray rnd k1
         (buildOptions i (cq_correctAnswer cq)
            (generatePlausibleDistractors (cq_correctAnswer cq) ents d))")
    let ?new = "newQuestion i (questionTypeAt i) cq opts incl"
    have "set (qs @ [?new]) \<subseteq> set (fst (genLoop rnd text count' d incl ents (i + 1) k2 (qs @ [?new])))"
      by (rule Suc.hyps(1) [OF n])
    then show ?thesis unfolding genLoop_push [OF lt g q1 q2 sh] by simp
  qed
qed

text \<open>A slot whose synthesis gives a question and an answer puts a question of its type into the result.\<close>

lemma genLoop_emits:
  assumes lt: "i < count'"
    and g: "generateContextualQuestion rnd k (questionTypeAt i) ents text (paragraphNumberAt i) = (cq, k1)"
    and q1: "cq_question cq \<noteq> []" and q2: "cq_correctAnswer cq \<noteq> []"
  shows "\<exists>q \<in> set (fst (genLoop rnd text count' d incl ents i k qs)).
           qtype q = questionTypeAt i \<and> qid q = ''q'' @ showNat (i + 1)"
proof -
  obtain opts k2 where sh:
    "shuffleArray rnd k1
       (buildOptions i (cq_correctAnswer cq)
          (generatePlausibleDistractors (cq_correctAnswer cq) ents d)) = (opts, k2)"
    by (cases "shuffleArray rnd k1
       (buildOptions i (cq_correctAnswer cq)
          (generatePlausibleDistractors (cq_correctAnswer cq) ents d))")
  let ?new = "newQuestion i (questionTypeAt i) cq opts incl"
  have "set (qs @ [?new]) \<subseteq> set (fst (genLoop rnd text count' d incl ents (i + 1) k2 (qs @ [?new])))"
    by (rule genLoop_keeps)
  then have "?new \<in> set (fst (genLoop rnd text count' d incl ents i k qs))"
    unfolding genLoop_push [OF lt g q1 q2 sh] by simp
  moreover have "qtype ?new = questionTypeAt i \<and> qid ?new = ''q'' @ showNat (i + 1)"
    by (simp add: newQuestion_def)
  ultimately show ?thesis by blast
qed

lemma genLoop_step_subset:
  assumes "i < count'"
  shows "\<exists>k' qs'. genLoop rnd text count' d incl ents i k qs
                     = genLoop rnd text count' d incl ents (i + 1) k' qs'"
proof -
  obtain cq k1 where g:
    "generateContextualQuestion rnd k (questionTypeAt i) ents text (paragraphNumberAt i) = (cq, k1)"
    by (cases "generateContextualQuestion rnd k (questionTypeAt i) ents text (paragraphNumberAt i)")
  show ?thesis
  proof (cases "cq_question cq = [] \<or> cq_correctAnswer cq = []")
    case True
    from genLoop_skip [OF assms g True] show ?thesis by blast
  next
    case False
    then have q1: "cq_question cq \<noteq> []" and q2: "cq_correctAnswer cq \<noteq> []" by simp_all
    obtain opts k2 where sh:
      "shuffleArray rnd k1
         (buildOptions i (cq_correctAnswer cq)
            (generatePlausibleDistractors (cq_correctAnswer cq) ents d)) = (opts, k2)"
      by (cases "shuffleArray rnd k1
         (buildOptions i (cq_correctAnswer cq)
            (generatePlausibleDistractors (cq_correctAnswer cq) ents d))")
    from genLoop_push [OF assms g q1 q2 sh] show ?thesis by blast
  qed
qed

lemma cause_effect_synthesis:
  assumes "\<exists>s \<in> set (splitRe sentenceEnd (selectParagraph text pn)). reTest causalVerbs s"
  shows "cq_correctAnswer (fst (generateContextualQuestion rnd k CauseEffect entities text pn)) \<noteq> []"
    and "cq_question (fst (generateContextualQuestion rnd k CauseEffect entities text pn)) \<noteq> []"
proof -
  have "reTest causalVerbs (findSentence (reTest causalVerbs) (selectParagraph text pn))"
    by (rule findSentence_found [OF assms])
  then have "trim (findSentence (reTest causalVerbs) (selectParagraph text pn)) \<noteq> []"
    by (intro trim_nonempty reTest_causalVerbs_nonspace)
  then show "cq_correctAnswer (fst (generateContextualQuestion rnd k CauseEffect entities text pn)) \<noteq> []"
    by (simp add: Let_def)
  show "cq_question (fst (generateContextualQuestion rnd k CauseEffect entities text pn)) \<noteq> []"
    by (simp add: Let_def)
qed

text \<open>
  Claim C9. The cause-effect branch never reads the entities: its result is the same for
  every entity set (and every random source, of which it consumes nothing). When a
  sentence of the selected paragraph matches a causal verb, the answer it returns is not
  empty, also with all four entity collections empty; and when that paragraph is the
  first one and there are at least two slots, the result of \<^verbatim>\<open>generateMockQuestions\<close>
  contains the cause-effect question of slot 1.
\<close>

theorem cause_effect_ignores_entities:
  assumes "\<exists>s \<in> set (splitRe sentenceEnd (selectParagraph text pn)). reTest causalVerbs s"
  shows "generateContextualQuestion rnd k CauseEffect entities text pn
           = generateContextualQuestion rnd' k CauseEffect
               \<lparr>processes = [], structures = [], concepts = [], relationships = []\<rparr> text pn
       \<and> snd (generateContextualQuestion rnd k CauseEffect entities text pn) = k
       \<and> cq_correctAnswer (fst (generateContextualQuestion rnd k CauseEffect
               \<lparr>processes = [], structures = [], concepts = [], relationships = []\<rparr> text pn)) \<noteq> []
       \<and> cq_correctAnswer (fst (generateContextualQuestion rnd k CauseEffect entities text pn)) \<noteq> []
       \<and> (pn = 1 \<and> 1 < count' \<longrightarrow>
            (\<exists>q \<in> set (fst (generateMockQuestions rnd k text count' difficulty includeExplanations)).
               qtype q = CauseEffect \<and> qid q = ''q2''))"
proof (intro conjI impI)
  show "generateContextualQuestion rnd k CauseEffect entities text pn
           = generateContextualQuestion rnd' k CauseEffect
               \<lparr>processes = [], structures = [], concepts = [], relationships = []\<rparr> text pn"
    by simp
  show "snd (generateContextualQuestion rnd k CauseEffect entities text pn) = k"
    by (simp add: Let_def)
  show "cq_correctAnswer (fst (generateContextualQuestion rnd k CauseEffect
               \<lparr>processes = [], structures = [], concepts = [], relationships = []\<rparr> text pn)) \<noteq> []"
    by (rule cause_effect_synthesis(1) [OF assms])
  show "cq_correctAnswer (fst (generateContextualQuestion rnd k CauseEffect entities text pn)) \<noteq> []"
    by (rule cause_effect_synthesis(1) [OF assms])
next
  assume a: "pn = 1 \<and> 1 < count'"
  let ?e = "extractEntities text"
  have t: "questionTypeAt 1 = CauseEffect" and p: "paragraphNumberAt 1 = 1"
    by (simp_all add: questionTypeAt_def paragraphNumberAt_def questionTypes_def)
  from a have lt0: "0 < count'" and lt1: "1 < count'" by simp_all
  obtain k' qs' where s0:
    "genLoop rnd text count' difficulty includeExplanations ?e 0 k []
       = genLoop rnd text count' difficulty includeExplanations ?e (0 + 1) k' qs'"
    using genLoop_step_subset [OF lt0] by blast
  obtain cq k1 where g: "generateContextualQuestion rnd k' CauseEffect ?e text 1 = (cq, k1)"
    by (cases "generateContextualQuestion rnd k' CauseEffect ?e text 1")
  from assms a cause_effect_synthesis [of "text" 1 rnd k' ?e] g
  have q: "cq_question cq \<noteq> []" "cq_correctAnswer cq \<noteq> []" by simp_all
  from g have g': "generateContextualQuestion rnd k' (questionTypeAt 1) ?e text (paragraphNumberAt 1) = (cq, k1)"
    by (simp only: t p)
  from genLoop_emits [OF lt1 g' q, of difficulty includeExplanations qs']
  have "\<exists>q \<in> set (fst (genLoop rnd text count' difficulty includeExplanations ?e 1 k' qs')).
           qtype q = CauseEffect \<and> qid q = ''q'' @ showNat (1 + 1)"
    by (simp only: t)
  moreover have "showNat (1 + 1) = ''2''" by (simp add: showNat.simps)
  ultimately show "\<exists>q \<in> set (fst (generateMockQuestions rnd k text count' difficulty includeExplanations)).
               qtype q = CauseEffect \<and> qid q = ''q2''"
    unfolding generateMockQuestions_def Let_def s0 by simp
qed

lemma heat_sentence:
  "\<exists>s \<in> set (splitRe sentenceEnd (selectParagraph ''Heat causes expansion.'' 1)). reTest causalVerbs s"
  by code_simp

lemma heat_answer:
  "cq_correctAnswer (fst (generateContextualQuestion (\<lambda>_. Draw 0 0) 0 CauseEffect
       \<lparr>processes = [], structures = [], concepts = [], relationships = []\<rparr>
       ''Heat causes expansion.'' 1)) = ''Heat causes expansion''"
  by code_simp

theorem cause_effect_ignores_entities_witness:
  "(\<exists>s \<in> set (splitRe sentenceEnd (selectParagraph ''Heat causes expansion.'' 1)). reTest causalVerbs s)
   \<and> extractEntities ''Heat causes expansion.''
       = \<lparr>processes = [], structures = [], concepts = [], relationships = []\<rparr>
   \<and> cq_correctAnswer (fst (generateContextualQuestion (\<lambda>_. Draw 0 0) 0 CauseEffect
         \<lparr>processes = [], structures = [], concepts = [], relationships = []\<rparr>
         ''Heat causes expansion.'' 1)) = ''Heat causes expansion''
   \<and> cq_correctAnswer (fst (generateContextualQuestion (\<lambda>_. Draw 0 0) 0 CauseEffect
         \<lparr>processes = [], structures = [], concepts = [], relationships = []\<rparr>
         ''Heat causes expansion.'' 1)) \<noteq> []
   \<and> (1 :: nat) < 2
   \<and> (\<exists>q \<in> set (fst (generateMockQuestions (\<lambda>_. Draw 0 0) 0 ''Heat causes expansion.'' 2 Medium True)).
         qtype q = CauseEffect \<and> qid q = ''q2'')"
proof -
  note inst = cause_effect_ignores_entities [OF heat_sentence,
      of "\<lambda>_. Draw 0 0" 0 "\<lparr>processes = [], structures = [], concepts = [], relationships = []\<rparr>"
         "\<lambda>_. Draw 0 0" 2 Medium True]
  have e: "extractEntities ''Heat causes expansion.''
       = \<lparr>processes = [], structures = [], concepts = [], relationships = []\<rparr>"
    by code_simp
  from inst have a: "cq_correctAnswer (fst (generateContextualQuestion (\<lambda>_. Draw 0 0) 0 CauseEffect
         \<lparr>processes = [], structures = [], concepts = [], relationships = []\<rparr>
         ''Heat causes expansion.'' 1)) \<noteq> []" by blast
  have lt: "(1 :: nat) < 2" by simp
  with inst have b: "\<exists>q \<in> set (fst (generateMockQuestions (\<lambda>_. Draw 0 0) 0 ''Heat causes expansion.'' 2 Medium True)).
         qtype q = CauseEffect \<and> qid q = ''q2''" by blast
  from heat_sentence e heat_answer a lt b show ?thesis by blast
qed

subsection \<open>The synthesizer on an empty collection\<close>






subsection \<open>The entity extractor\<close>

lemma newSet_fold_distinct:
  "distinct seen \<Longrightarrow>
   distinct (foldl (\<lambda>seen x. if x \<in> set seen then seen else seen @ [x]) seen xs)"
  by (induction xs arbitrary: seen) simp_all

lemma newSet_fold_set:
  "set (foldl (\<lambda>seen x. if x \<in> set seen then seen else seen @ [x]) seen xs) = set seen \<union> set xs"
  by (induction xs arbitrary: seen) auto

lemma newSet_distinct: "distinct (newSet xs)"
  by (simp add: newSet_def newSet_fold_distinct)

lemma newSet_set: "set (newSet xs) = set xs"
  by (simp add: newSet_def newSet_fold_set)

lemma trim_idem: "trim (trim s) = trim s"
proof (cases "trim s = []")
  case True
  then show ?thesis by (simp add: trim_Nil)
next
  case False
  let ?d = "dropWhile isSpace s"
  let ?t = "trim s"
  have t: "?t = rev (dropWhile isSpace (rev ?d))" by (simp add: trim_def)
  from False t have ne: "dropWhile isSpace (rev ?d) \<noteq> []" by simp
  then have last_ok: "\<not> isSpace (hd (dropWhile isSpace (rev ?d)))" by (rule hd_dropWhile)
  have dne: "?d \<noteq> []"
  proof
    assume "?d = []"
    then have "dropWhile isSpace (rev ?d) = []" by (simp only: rev.simps dropWhile.simps)
    with ne show False by blast
  qed
  then have hd_ok: "\<not> isSpace (hd ?d)" by (rule hd_dropWhile)
  have "?d = rev (takeWhile isSpace (rev ?d) @ dropWhile isSpace (rev ?d))"
    by (simp only: takeWhile_dropWhile_id rev_rev_ident)
  then have "?d = rev (dropWhile isSpace (rev ?d)) @ rev (takeWhile isSpace (rev ?d))"
    by (simp only: rev_append)
  then have d: "?d = ?t @ rev (takeWhile isSpace (rev ?d))" by (simp only: t)
  with False have "hd ?d = hd ?t" by (metis hd_append2)
  with hd_ok have "\<not> isSpace (hd ?t)" by simp
  with False have a: "dropWhile isSpace ?t = ?t" by (cases ?t) simp_all
  have "rev ?t = dropWhile isSpace (rev ?d)" by (simp add: t)
  with last_ok ne have b: "dropWhile isSpace (rev ?t) = rev ?t"
    by (cases "dropWhile isSpace (rev ?d)") simp_all
  have "trim ?t = rev (dropWhile isSpace (rev (dropWhile isSpace ?t)))" by (simp add: trim_def)
  also have "\<dots> = rev (dropWhile isSpace (rev ?t))" by (simp only: a)
  also have "\<dots> = rev (rev ?t)" by (simp only: b)
  finally show ?thesis by simp
qed

text \<open>
  The part of the invariant of the phrase collections that the code keeps: no phrase
  occurs twice, and every phrase is its own \<^verbatim>\<open>trim\<close>.
\<close>

lemma extractEntities_distinct_trimmed:
  "distinct (processes (extractEntities text))
   \<and> distinct (structures (extractEntities text))
   \<and> distinct (concepts (extractEntities text))
   \<and> (\<forall>p \<in> set (processes (extractEntities text)) \<union> set (structures (extractEntities text))
              \<union> set (concepts (extractEntities text)). trim p = p)"
  by (auto simp: extractEntities_def Let_def newSet_distinct newSet_set trim_idem)

text \<open>
  Claim C8 at the text \<^verbatim>\<open>The sample contains  3 cells.\<close> (two spaces after
  \<^verbatim>\<open>contains\<close>): the cue takes the first space, the group takes the second one and
  stops at the digit, \<^verbatim>\<open>trim\<close> makes it the empty string, and nothing removes it:
  the structures are the list of the empty string.
\<close>

theorem extractEntities_empty_phrase:
  "extractEntities ''The sample contains  3 cells.''
     = \<lparr>processes = [], structures = [[]], concepts = [], relationships = []\<rparr>
   \<and> [] \<in> set (structures (extractEntities ''The sample contains  3 cells.''))"
proof -
  have v: "extractEntities ''The sample contains  3 cells.''
     = \<lparr>processes = [], structures = [[]], concepts = [], relationships = []\<rparr>"
    by code_simp
  show ?thesis unfolding v by simp
qed

end
